theory Spec2Isabelle
  imports Complex_Main "HOL-Library.Log_Nat"
begin

section \<open>JavaScript values\<close>

text \<open>
  A JavaScript string is modelled by the bytes of its UTF-8 encoding, which is how the
  source files store their literals. The scripts only assign, concatenate and compare
  strings and split them at the ASCII comma; on well-formed strings all of these agree
  with the same operations on UTF-16 code units.
\<close>

type_synonym jsstring = string

text \<open>
  What a \<^verbatim>\<open>catch\<close> block can receive: the rejection of \<^verbatim>\<open>fetch\<close>, the rejection of
  \<^verbatim>\<open>response.json()\<close>, a property read on \<^verbatim>\<open>undefined\<close>, and the refusal of the
  charting library to draw on a canvas that still carries a chart.
\<close>

datatype js_error = FetchFailed | JsonSyntaxError | TypeError | CanvasInUse

text \<open>
  How a call ends: it returns, or it throws and leaves the page as it was at the throw.
\<close>

datatype 's completion = Normal 's | Throw js_error 's

subsection \<open>Numbers\<close>

text \<open>
  A Number is an IEEE 754 double: a finite double is the rational it denotes, the two
  zeros are not told apart (nothing in the scripts can observe the sign of zero).
\<close>

datatype jsnum = Finite rat | PosInf | NegInf | NaN

definition floor_log2 :: "rat \<Rightarrow> int" where
  \<comment> \<open>for \<open>0 < a\<close>: the \<open>e\<close> with \<open>2 ^ e \<le> a < 2 ^ (e + 1)\<close>\<close>
  "floor_log2 a = (if 1 \<le> a then bitlen \<lfloor>a\<rfloor> - 1 else - bitlen (\<lceil>1 / a\<rceil> - 1))"

definition round_half_even :: "rat \<Rightarrow> int" where
  "round_half_even q =
     (let n = \<lfloor>q\<rfloor>; r = q - of_int n
      in if r < 1 / 2 then n else if 1 / 2 < r then n + 1 else if even n then n else n + 1)"

definition number_value :: "rat \<Rightarrow> jsnum" where
  \<comment> \<open>the Number value for a mathematical value: round to nearest double, ties to even\<close>
  "number_value x =
     (if x = 0 then Finite 0
      else
        let a = \<bar>x\<bar>;
            e = max (floor_log2 a) (- 1022);
            ulp = 2 powi (e - 52);
            r = of_int (round_half_even (a / ulp)) * ulp
        in if 2 ^ 1024 \<le> r then (if 0 < x then PosInf else NegInf)
           else Finite (if 0 < x then r else - r))"

fun js_times :: "jsnum \<Rightarrow> jsnum \<Rightarrow> jsnum" where
  \<comment> \<open>the operator \<^verbatim>\<open>*\<close> on two Numbers\<close>
  "js_times NaN y = NaN"
| "js_times x NaN = NaN"
| "js_times (Finite a) (Finite b) = number_value (a * b)"
| "js_times (Finite a) PosInf = (if a = 0 then NaN else if 0 < a then PosInf else NegInf)"
| "js_times (Finite a) NegInf = (if a = 0 then NaN else if 0 < a then NegInf else PosInf)"
| "js_times PosInf (Finite b) = (if b = 0 then NaN else if 0 < b then PosInf else NegInf)"
| "js_times NegInf (Finite b) = (if b = 0 then NaN else if 0 < b then NegInf else PosInf)"
| "js_times PosInf PosInf = PosInf"
| "js_times PosInf NegInf = NegInf"
| "js_times NegInf PosInf = NegInf"
| "js_times NegInf NegInf = PosInf"

fun digits10 :: "nat \<Rightarrow> string" where
  \<comment> \<open>the digits of the decimal representation\<close>
  "digits10 n =
     (if n < 10 then [''0123456789'' ! n]
      else digits10 (n div 10) @ [''0123456789'' ! (n mod 10)])"

text \<open>
  \<^verbatim>\<open>Number::toString\<close> is needed only where \<^verbatim>\<open>toFixed\<close> falls back on it, for magnitudes
  of at least \<open>10 ^ 21\<close>: the shortest digit string \<open>s\<close> (of \<open>k\<close> digits) such that
  \<open>s * 10 ^ (n - k)\<close> rounds to the number, the closest such \<open>s\<close> when there are two, written
  in exponent notation. Such a number is an integer of \<open>n \<ge> 22\<close> digits.
\<close>

definition digit_candidates :: "rat \<Rightarrow> nat \<Rightarrow> nat \<Rightarrow> nat list" where
  "digit_candidates a n k =
     (let lo = nat \<lfloor>a / 10 ^ (n - k)\<rfloor>
      in filter (\<lambda>s. 10 ^ (k - 1) \<le> s \<and> s < 10 ^ k \<and>
                     number_value (of_nat s * 10 ^ (n - k)) = Finite a) [lo, lo + 1])"

fun closest_candidate :: "rat \<Rightarrow> nat \<Rightarrow> nat \<Rightarrow> nat list \<Rightarrow> nat" where
  "closest_candidate a n k [s] = s"
| "closest_candidate a n k (s # t # _) =
     (let ds = \<bar>of_nat s * 10 ^ (n - k) - a\<bar>; dt = \<bar>of_nat t * 10 ^ (n - k) - a\<bar>
      in if ds < dt then s else if dt < ds then t else if even s then s else t)"
| "closest_candidate a n k [] = 0"

fun shortest_digits :: "rat \<Rightarrow> nat \<Rightarrow> nat \<Rightarrow> nat \<Rightarrow> nat \<times> nat" where
  \<comment> \<open>tries \<open>k\<close>, \<open>k + 1\<close>, ...; seventeen digits always round-trip\<close>
  "shortest_digits a n k 0 = (k, nat \<lfloor>a / 10 ^ (n - k)\<rfloor>)"
| "shortest_digits a n k (Suc fuel) =
     (case digit_candidates a n k of
        [] \<Rightarrow> shortest_digits a n (k + 1) fuel
      | cs \<Rightarrow> (k, closest_candidate a n k cs))"

definition large_number_to_string :: "rat \<Rightarrow> string" where
  \<comment> \<open>for a double \<open>a \<ge> 10 ^ 21\<close>\<close>
  "large_number_to_string a =
     (let n = length (digits10 (nat \<lfloor>a\<rfloor>));
          (k, s) = shortest_digits a n 1 17;
          d = digits10 s
      in (if k = 1 then d else take 1 d @ ''.'' @ drop 1 d) @ ''e+'' @ digits10 (n - 1))"

definition toFixed :: "nat \<Rightarrow> jsnum \<Rightarrow> string" where
  \<comment> \<open>\<^verbatim>\<open>Number.prototype.toFixed(f)\<close> for \<open>0 \<le> f \<le> 100\<close>\<close>
  "toFixed f x =
     (case x of
        NaN \<Rightarrow> ''NaN''
      | PosInf \<Rightarrow> ''Infinity''
      | NegInf \<Rightarrow> ''-Infinity''
      | Finite r \<Rightarrow>
          (let s = (if r < 0 then ''-'' else '''');
               a = \<bar>r\<bar>
           in if 10 ^ 21 \<le> a then s @ large_number_to_string a
              else
                let n = nat \<lfloor>a * 10 ^ f + 1 / 2\<rfloor>;
                    m = digits10 n;
                    m = (if length m \<le> f then replicate (f + 1 - length m) (CHR ''0'') @ m else m);
                    k = length m
                in s @ (if f \<noteq> 0 then take (k - f) m @ ''.'' @ drop (k - f) m else m)))"

text \<open>
  Values that the scripts pass around without looking inside (the fields of a fund
  info object).
\<close>

datatype jsval =
    Undefined
  | Null
  | Bool bool
  | Num jsnum
  | Str jsstring
  | Arr "jsval list"
  | Obj "(jsstring \<times> jsval) list"

text \<open>
  The text content of an element: a string, or \<^verbatim>\<open>JSON.stringify(v, null, 2)\<close> of a
  value that is kept as it is.
\<close>

datatype 'a content = Plain jsstring | Stringify 'a

subsection \<open>Splitting a string at commas\<close>

text \<open>\<^verbatim>\<open>s.split(',')\<close>: \<open>cur\<close> holds the current piece, reversed.\<close>

fun split_from :: "string \<Rightarrow> string \<Rightarrow> string list" where
  "split_from cur [] = [rev cur]"
| "split_from cur (c # cs) =
     (if c = CHR '','' then rev cur # split_from [] cs else split_from (c # cur) cs)"

definition split_comma :: "jsstring \<Rightarrow> jsstring list" where
  "split_comma s = split_from [] s"


section \<open>The page script: fund list, fund info, optimisation and backtest\<close>

subsection \<open>Literals\<close>

definition API_BASE_URL :: jsstring where
  "API_BASE_URL = ''http://127.0.0.1:8000''"

definition MAX_FUNDS_TO_SHOW :: nat where
  "MAX_FUNDS_TO_SHOW = 10"

text \<open>The labels of the two toggle buttons and the keys of the summary, as UTF-8.\<close>

definition label_view_more :: jsstring where
  "label_view_more =
     [CHR 0xE6, CHR 0x9F, CHR 0xA5, CHR 0xE7, CHR 0x9C, CHR 0x8B,
      CHR 0xE6, CHR 0x9B, CHR 0xB4, CHR 0xE5, CHR 0xA4, CHR 0x9A]"

definition label_collapse :: jsstring where
  "label_collapse = [CHR 0xE6, CHR 0x94, CHR 0xB6, CHR 0xE8, CHR 0xB5, CHR 0xB7]"

definition label_expand_full :: jsstring where
  "label_expand_full =
     [CHR 0xE5, CHR 0xB1, CHR 0x95, CHR 0xE5, CHR 0xBC, CHR 0x80, CHR 0xE5, CHR 0xAE, CHR 0x8C,
      CHR 0xE6, CHR 0x95, CHR 0xB4, CHR 0xE4, CHR 0xBF, CHR 0xA1, CHR 0xE6, CHR 0x81, CHR 0xAF]"

definition label_collapse_full :: jsstring where
  "label_collapse_full =
     [CHR 0xE6, CHR 0x94, CHR 0xB6, CHR 0xE8, CHR 0xB5, CHR 0xB7, CHR 0xE5, CHR 0xAE, CHR 0x8C,
      CHR 0xE6, CHR 0x95, CHR 0xB4, CHR 0xE4, CHR 0xBF, CHR 0xA1, CHR 0xE6, CHR 0x81, CHR 0xAF]"

definition key_fund_code :: jsstring where
  "key_fund_code =
     [CHR 0xE5, CHR 0x9F, CHR 0xBA, CHR 0xE9, CHR 0x87, CHR 0x91,
      CHR 0xE4, CHR 0xBB, CHR 0xA3, CHR 0xE7, CHR 0xA0, CHR 0x81]"

definition key_fund_name :: jsstring where
  "key_fund_name =
     [CHR 0xE5, CHR 0x9F, CHR 0xBA, CHR 0xE9, CHR 0x87, CHR 0x91,
      CHR 0xE5, CHR 0x90, CHR 0x8D, CHR 0xE7, CHR 0xA7, CHR 0xB0]"

definition key_fund_type :: jsstring where
  "key_fund_type =
     [CHR 0xE5, CHR 0x9F, CHR 0xBA, CHR 0xE9, CHR 0x87, CHR 0x91,
      CHR 0xE7, CHR 0xB1, CHR 0xBB, CHR 0xE5, CHR 0x9E, CHR 0x8B]"

definition key_manager :: jsstring where
  "key_manager =
     [CHR 0xE5, CHR 0x9F, CHR 0xBA, CHR 0xE9, CHR 0x87, CHR 0x91,
      CHR 0xE7, CHR 0xBB, CHR 0x8F, CHR 0xE7, CHR 0x90, CHR 0x86]"

subsection \<open>What the API returns\<close>

text \<open>
  The payloads have the types of the API contract; \<open>None\<close> stands for \<^verbatim>\<open>undefined\<close> (or
  \<^verbatim>\<open>null\<close>) where a property may be missing from a JSON body, as in the body of an error
  response. An object is the list of its own properties in enumeration order. Of an
  optimisation result and a backtest result only the property that the scripts read is
  kept.
\<close>

type_synonym fund_info = "(jsstring \<times> jsval) list"

record optimize_data =
  weights :: "(jsstring \<times> jsnum) list option"

record entry =
  date :: jsstring
  value' :: jsnum

record backtest_data =
  portfolio_value :: "entry list option"

text \<open>
  What the two awaited calls deliver: \<^verbatim>\<open>fetch\<close> rejects on a network failure and resolves
  on every HTTP status; \<^verbatim>\<open>response.json()\<close> rejects when the body is not JSON. For the
  page script \<open>'r\<close> is the \<^verbatim>\<open>data\<close> property of the parsed body, for \<^verbatim>\<open>main.js\<close> the
  parsed body itself.
\<close>

datatype 'r body = MalformedJSON | JSON 'r

datatype 'r fetched = NetworkFailure | Response nat "'r body"

subsection \<open>The page\<close>

text \<open>
  Of the configuration passed to \<^verbatim>\<open>new Chart\<close>: the type, the labels and the data of the
  one dataset. The styling options are constants and are left out.
\<close>

datatype chart_config =
    BarChart "jsstring list" "jsnum list"
  | LineChart "jsstring list" "jsnum list"

record chart =
  canvas :: jsstring
  config :: chart_config
  destroyed :: bool

datatype log_entry = Log jsstring | LogLength jsstring nat | LogError js_error

text \<open>
  The elements the script touches (of the list, the text of its \<^verbatim>\<open>li\<close> children in
  document order), the Chart instances constructed so far (a reference to a chart is its
  position in \<open>charts\<close>), the module variable \<^verbatim>\<open>optimizeChartInstance\<close> and the console.
  A click listener is a closure; it is kept as the values it captured.
  \<open>canvas_check\<close> says whether the charting library refuses to construct a chart on a
  canvas that carries an undestroyed one (Chart.js does since version 3).
\<close>

record page =
  fundList :: "jsstring list"
  toggleFundList_display :: jsstring
  toggleFundList_text :: jsstring
  toggleFundList_click :: "jsstring list list"
  fundInfoContent :: "jsval content"
  toggleFundInfo_text :: jsstring
  toggleFundInfo_click :: "(jsval \<times> jsval) list"
  optimizeResultContent :: "optimize_data option content"
  backtestResultContent :: "backtest_data option content"
  backtestLoading_display :: jsstring
  charts :: "chart list"
  optimizeChartInstance :: "nat option"
  canvas_check :: bool
  console :: "log_entry list"

definition console_log :: "log_entry \<Rightarrow> page \<Rightarrow> page" where
  "console_log e p = p\<lparr>console := console p @ [e]\<rparr>"

subsection \<open>\<^verbatim>\<open>displayFunds\<close>\<close>

fun append_items :: "jsstring list \<Rightarrow> page \<Rightarrow> page" where
  \<comment> \<open>\<^verbatim>\<open>forEach\<close>: one new \<^verbatim>\<open>li\<close> per fund, appended to the list\<close>
  "append_items [] p = p"
| "append_items (fund # rest) p = append_items rest (p\<lparr>fundList := fundList p @ [fund]\<rparr>)"

definition remove_extra_items :: "page \<Rightarrow> page" where
  \<comment> \<open>every \<^verbatim>\<open>li\<close> of the snapshot whose index is at least the maximum is removed\<close>
  "remove_extra_items p =
     p\<lparr>fundList :=
         map snd (filter (\<lambda>(index, item). \<not> MAX_FUNDS_TO_SHOW \<le> index)
                    (zip [0 ..< length (fundList p)] (fundList p)))\<rparr>"

definition fundList_listener :: "jsstring list \<Rightarrow> page \<Rightarrow> page" where
  "fundList_listener funds p =
     (if toggleFundList_text p = label_view_more
      then (append_items (drop MAX_FUNDS_TO_SHOW funds) p)\<lparr>toggleFundList_text := label_collapse\<rparr>
      else (remove_extra_items p)\<lparr>toggleFundList_text := label_view_more\<rparr>)"

definition displayFunds :: "jsstring list option \<Rightarrow> page \<Rightarrow> page completion" where
  "displayFunds funds p =
     (let p1 = p\<lparr>fundList := []\<rparr>
      in case funds of
           None \<Rightarrow> Throw TypeError p1
         | Some fs \<Rightarrow>
             let p2 = append_items (take MAX_FUNDS_TO_SHOW fs) p1
             in if MAX_FUNDS_TO_SHOW < length fs
                then Normal (p2\<lparr>toggleFundList_display := ''block'',
                                toggleFundList_text := label_view_more,
                                toggleFundList_click := toggleFundList_click p2 @ [fs]\<rparr>)
                else Normal (p2\<lparr>toggleFundList_display := ''none''\<rparr>))"

text \<open>A click on the button runs every registered listener, in registration order.\<close>

definition click_toggleFundList :: "page \<Rightarrow> page" where
  "click_toggleFundList p = foldl (\<lambda>q funds. fundList_listener funds q) p (toggleFundList_click p)"

subsection \<open>\<^verbatim>\<open>displayFundInfo\<close>\<close>

definition property :: "fund_info \<Rightarrow> jsstring \<Rightarrow> jsval" where
  "property obj k = (case map_of obj k of None \<Rightarrow> Undefined | Some v \<Rightarrow> v)"

definition summary_of :: "fund_info \<Rightarrow> jsval" where
  "summary_of fundInfo =
     Obj [(key_fund_code, property fundInfo ''fund_code''),
          (key_fund_name, property fundInfo ''fund_name''),
          (key_fund_type, property fundInfo ''fund_type''),
          (key_manager, property fundInfo ''manager'')]"

definition fundInfo_listener :: "jsval \<times> jsval \<Rightarrow> page \<Rightarrow> page" where
  \<comment> \<open>the closure over \<^verbatim>\<open>summary\<close> and \<^verbatim>\<open>fullInfo\<close>\<close>
  "fundInfo_listener c p =
     (case c of (summary, fullInfo) \<Rightarrow>
        if toggleFundInfo_text p = label_expand_full
        then p\<lparr>fundInfoContent := Stringify fullInfo, toggleFundInfo_text := label_collapse_full\<rparr>
        else p\<lparr>fundInfoContent := Stringify summary, toggleFundInfo_text := label_expand_full\<rparr>)"

definition displayFundInfo :: "fund_info option \<Rightarrow> page \<Rightarrow> page completion" where
  "displayFundInfo fundInfo p =
     (case fundInfo of
        None \<Rightarrow> Throw TypeError p
      | Some obj \<Rightarrow>
          let summary = summary_of obj;
              fullInfo = Obj obj
          in Normal (p\<lparr>fundInfoContent := Stringify summary,
                        toggleFundInfo_text := label_expand_full,
                        toggleFundInfo_click := toggleFundInfo_click p @ [(summary, fullInfo)]\<rparr>))"

definition click_toggleFundInfo :: "page \<Rightarrow> page" where
  "click_toggleFundInfo p = foldl (\<lambda>q c. fundInfo_listener c q) p (toggleFundInfo_click p)"


subsection \<open>Charts\<close>

definition live_charts :: "jsstring \<Rightarrow> page \<Rightarrow> nat list" where
  \<comment> \<open>the references of the undestroyed charts on a canvas\<close>
  "live_charts cv p =
     filter (\<lambda>i. canvas (charts p ! i) = cv \<and> \<not> destroyed (charts p ! i)) [0 ..< length (charts p)]"

definition destroy :: "nat \<Rightarrow> page \<Rightarrow> page" where
  "destroy i p =
     (if i < length (charts p)
      then p\<lparr>charts := (charts p)[i := (charts p ! i)\<lparr>destroyed := True\<rparr>]\<rparr>
      else p)"

definition new_Chart :: "jsstring \<Rightarrow> chart_config \<Rightarrow> page \<Rightarrow> page completion" where
  \<comment> \<open>the new chart is the last of \<open>charts\<close>\<close>
  "new_Chart cv cfg p =
     (if canvas_check p \<and> live_charts cv p \<noteq> [] then Throw CanvasInUse p
      else Normal (p\<lparr>charts := charts p @ [\<lparr>canvas = cv, config = cfg, destroyed = False\<rparr>]\<rparr>))"

definition renderOptimizeChart :: "optimize_data option \<Rightarrow> page \<Rightarrow> page completion" where
  "renderOptimizeChart data p =
     (let p1 = (case optimizeChartInstance p of Some i \<Rightarrow> destroy i p | None \<Rightarrow> p)
      in case data of
           None \<Rightarrow> Throw TypeError p1
         | Some d \<Rightarrow>
             (case weights d of
                None \<Rightarrow> Throw TypeError p1
              | Some w \<Rightarrow>
                  (case new_Chart ''optimizeChart'' (BarChart (map fst w) (map snd w)) p1 of
                     Throw e q \<Rightarrow> Throw e q
                   | Normal q \<Rightarrow> Normal (q\<lparr>optimizeChartInstance := Some (length (charts q) - 1)\<rparr>))))"

function sample_loop :: "'a list \<Rightarrow> nat \<Rightarrow> 'a list \<Rightarrow> 'a list" where
  \<comment> \<open>the \<^verbatim>\<open>for\<close> loop with \<^verbatim>\<open>sampleInterval = 7\<close>\<close>
  "sample_loop originalPortfolioValue i sampledPortfolioValue =
     (if i < length originalPortfolioValue
      then sample_loop originalPortfolioValue (i + 7)
             (sampledPortfolioValue @ [originalPortfolioValue ! i])
      else sampledPortfolioValue)"
  by pat_completeness auto
termination
  by (relation "measure (\<lambda>(xs, i, acc). length xs - i)") auto

declare sample_loop.simps [simp del]

definition renderBacktestChart :: "backtest_data option \<Rightarrow> page \<Rightarrow> page completion" where
  "renderBacktestChart data p =
     (case data of
        None \<Rightarrow> Throw TypeError p
      | Some d \<Rightarrow>
          (case portfolio_value d of
             None \<Rightarrow> Throw TypeError p
           | Some originalPortfolioValue \<Rightarrow>
               let sampledPortfolioValue = sample_loop originalPortfolioValue 0 [];
                   p1 = console_log (LogLength ''Original data length:''
                                       (length originalPortfolioValue)) p;
                   p2 = console_log (LogLength ''Sampled data length:''
                                       (length sampledPortfolioValue)) p1
               in new_Chart ''backtestChart''
                    (LineChart (map date sampledPortfolioValue) (map value' sampledPortfolioValue))
                    p2))"

subsection \<open>The submit handlers\<close>

definition catch_log :: "page completion \<Rightarrow> page" where
  \<comment> \<open>\<^verbatim>\<open>catch (error) { console.error('Error:', error); }\<close>\<close>
  "catch_log c = (case c of Normal q \<Rightarrow> q | Throw e q \<Rightarrow> console_log (LogError e) q)"

definition await_json :: "'r fetched \<Rightarrow> ('r \<Rightarrow> page \<Rightarrow> page completion) \<Rightarrow> page \<Rightarrow> page completion" where
  \<comment> \<open>\<^verbatim>\<open>await fetch(...)\<close>, then \<^verbatim>\<open>await response.json()\<close>, then the rest of the \<^verbatim>\<open>try\<close> block\<close>
  "await_json r rest p =
     (case r of
        NetworkFailure \<Rightarrow> Throw FetchFailed p
      | Response status MalformedJSON \<Rightarrow> Throw JsonSyntaxError p
      | Response status (JSON result_data) \<Rightarrow> rest result_data p)"

definition fundForm_url :: "jsstring \<Rightarrow> jsstring" where
  "fundForm_url fundType =
     API_BASE_URL @ ''/funds'' @ (if fundType \<noteq> [] then CHR 0x3F # ''fund_type='' @ fundType else [])"

definition fundForm_submit :: "jsstring list option fetched \<Rightarrow> page \<Rightarrow> page" where
  "fundForm_submit r p =
     catch_log (await_json r displayFunds
                  (console_log (Log ''Fund form submit event triggered!'') p))"

definition fundInfoForm_url :: "jsstring \<Rightarrow> jsstring" where
  "fundInfoForm_url fundCode = API_BASE_URL @ ''/fund/'' @ fundCode"

definition fundInfoForm_submit :: "fund_info option fetched \<Rightarrow> page \<Rightarrow> page" where
  "fundInfoForm_submit r p = catch_log (await_json r displayFundInfo p)"

record optimize_request =
  fund_pool :: "jsstring list"
  request_method :: jsstring
  risk_aversion :: jsnum

definition optimizeForm_request ::
    "(jsstring \<Rightarrow> jsnum) \<Rightarrow> jsstring \<Rightarrow> jsstring \<Rightarrow> jsstring \<Rightarrow> optimize_request" where
  \<comment> \<open>the body posted to \<^verbatim>\<open>/optimize\<close>, from the values of the three inputs;
      \<open>request_method\<close> is its \<^verbatim>\<open>method\<close> property\<close>
  "optimizeForm_request parseFloat fundPool_value method_value riskAversion_value =
     \<lparr>fund_pool = split_comma fundPool_value,
      request_method = method_value,
      risk_aversion = parseFloat riskAversion_value\<rparr>"

definition optimizeForm_submit :: "optimize_data option fetched \<Rightarrow> page \<Rightarrow> page" where
  "optimizeForm_submit r p =
     catch_log (await_json r
                  (\<lambda>result_data q.
                     renderOptimizeChart result_data
                       (q\<lparr>optimizeResultContent := Stringify result_data\<rparr>)) p)"

record backtest_request =
  fund_pool :: "jsstring list"
  start_date :: jsstring
  end_date :: jsstring

definition backtestForm_request :: "jsstring \<Rightarrow> jsstring \<Rightarrow> jsstring \<Rightarrow> backtest_request" where
  \<comment> \<open>the body posted to \<^verbatim>\<open>/backtest\<close>\<close>
  "backtestForm_request backtestFundPool_value startDate_value endDate_value =
     \<lparr>fund_pool = split_comma backtestFundPool_value,
      start_date = startDate_value,
      end_date = endDate_value\<rparr>"

definition backtestForm_submit :: "backtest_data option fetched \<Rightarrow> page \<Rightarrow> page" where
  \<comment> \<open>the loading indicator is shown before the request and hidden in \<^verbatim>\<open>finally\<close>\<close>
  "backtestForm_submit r p =
     (let p1 = p\<lparr>backtestLoading_display := ''block''\<rparr>;
          p2 = catch_log (await_json r
                            (\<lambda>result_data q.
                               renderBacktestChart result_data
                                 (q\<lparr>backtestResultContent := Stringify result_data\<rparr>)) p1)
      in p2\<lparr>backtestLoading_display := ''none''\<rparr>)"

section \<open>The second script: \<^verbatim>\<open>main.js\<close>\<close>

record results_page =
  results_innerHTML :: jsstring
  results_console :: "log_entry list"

record main_request =
  fund_codes :: "jsstring list"
  start_date :: jsstring
  end_date :: jsstring

definition main_optimizeForm_request :: "jsstring \<Rightarrow> jsstring \<Rightarrow> jsstring \<Rightarrow> main_request" where
  \<comment> \<open>the body posted to \<^verbatim>\<open>/api/optimize\<close>\<close>
  "main_optimizeForm_request fundCodes_value startDate_value endDate_value =
     \<lparr>fund_codes = split_comma fundCodes_value,
      start_date = startDate_value,
      end_date = endDate_value\<rparr>"

definition heading_results :: jsstring where
  "heading_results =
     [CHR 0xE4, CHR 0xBC, CHR 0x98, CHR 0xE5, CHR 0x8C, CHR 0x96,
      CHR 0xE7, CHR 0xBB, CHR 0x93, CHR 0xE6, CHR 0x9E, CHR 0x9C]"

definition heading_weight :: jsstring where
  "heading_weight = [CHR 0xE6, CHR 0x9D, CHR 0x83, CHR 0xE9, CHR 0x87, CHR 0x8D]"

definition table_row :: "jsstring \<times> jsnum \<Rightarrow> jsstring" where
  "table_row cw =
     (case cw of (code, weight) \<Rightarrow>
        ''<tr><td>'' @ code @ ''</td><td>'' @ toFixed 2 (js_times weight (Finite 100))
          @ ''%</td></tr>'')"

definition displayResults :: "optimize_data \<Rightarrow> results_page \<Rightarrow> results_page completion" where
  "displayResults result p =
     (let html = ''<h3>'' @ heading_results @ ''</h3>'';
          html = html @ ''<table class='' @ [CHR 0x22] @ ''table'' @ [CHR 0x22] @ ''>'';
          html = html @ ''<tr><th>'' @ key_fund_code @ ''</th><th>'' @ heading_weight @ ''</th></tr>''
      in case weights result of
           None \<Rightarrow> Throw TypeError p
         | Some entries \<Rightarrow>
             let html = foldl (\<lambda>html cw. html @ table_row cw) html entries;
                 html = html @ ''</table>''
             in Normal (p\<lparr>results_innerHTML := html\<rparr>))"

definition main_optimizeForm_submit :: "optimize_data fetched \<Rightarrow> results_page \<Rightarrow> results_page" where
  "main_optimizeForm_submit r p =
     (case (case r of
              NetworkFailure \<Rightarrow> Throw FetchFailed p
            | Response status MalformedJSON \<Rightarrow> Throw JsonSyntaxError p
            | Response status (JSON result) \<Rightarrow> displayResults result p) of
        Normal q \<Rightarrow> q
      | Throw e q \<Rightarrow> q\<lparr>results_console := results_console q @ [LogError e]\<rparr>)"

section \<open>Runs of the page script\<close>

definition page_of :: "'s completion \<Rightarrow> 's" where
  \<comment> \<open>the page a call leaves behind, however it ended\<close>
  "page_of c = (case c of Normal q \<Rightarrow> q | Throw e q \<Rightarrow> q)"

definition blank_page :: "bool \<Rightarrow> page" where
  \<comment> \<open>a freshly loaded page: nothing rendered, no listener, no chart\<close>
  "blank_page check =
     \<lparr>fundList = [], toggleFundList_display = [], toggleFundList_text = [],
      toggleFundList_click = [], fundInfoContent = Plain [], toggleFundInfo_text = [],
      toggleFundInfo_click = [], optimizeResultContent = Plain [],
      backtestResultContent = Plain [], backtestLoading_display = [], charts = [],
      optimizeChartInstance = None, canvas_check = check, console = []\<rparr>"

definition displayFundInfo_all :: "fund_info list \<Rightarrow> page \<Rightarrow> page" where
  \<comment> \<open>\<^verbatim>\<open>displayFundInfo\<close> called on each object in turn\<close>
  "displayFundInfo_all objs p = foldl (\<lambda>q obj. page_of (displayFundInfo (Some obj) q)) p objs"

definition displayFunds_all :: "jsstring list list \<Rightarrow> page \<Rightarrow> page" where
  \<comment> \<open>\<^verbatim>\<open>displayFunds\<close> called on each fund list in turn\<close>
  "displayFunds_all fss p = foldl (\<lambda>q fs. page_of (displayFunds (Some fs) q)) p fss"

abbreviation run_info :: "page \<Rightarrow> (jsval \<times> jsval) list \<Rightarrow> page" where
  "run_info \<equiv> foldl (\<lambda>q c. fundInfo_listener c q)"

abbreviation run_list :: "page \<Rightarrow> jsstring list list \<Rightarrow> page" where
  "run_list \<equiv> foldl (\<lambda>q funds. fundList_listener funds q)"

text \<open>
  What can happen on the page: a form is submitted and its request ends in some way, or
  a toggle button is clicked.
\<close>

datatype event =
    SubmitFundForm "jsstring list option fetched"
  | ClickToggleFundList
  | SubmitFundInfoForm "fund_info option fetched"
  | ClickToggleFundInfo
  | SubmitOptimizeForm "optimize_data option fetched"
  | SubmitBacktestForm "backtest_data option fetched"

fun handle :: "event \<Rightarrow> page \<Rightarrow> page" where
  "handle (SubmitFundForm r) p = fundForm_submit r p"
| "handle ClickToggleFundList p = click_toggleFundList p"
| "handle (SubmitFundInfoForm r) p = fundInfoForm_submit r p"
| "handle ClickToggleFundInfo p = click_toggleFundInfo p"
| "handle (SubmitOptimizeForm r) p = optimizeForm_submit r p"
| "handle (SubmitBacktestForm r) p = backtestForm_submit r p"

definition run :: "event list \<Rightarrow> page \<Rightarrow> page" where
  "run es p = foldl (\<lambda>q e. handle e q) p es"

text \<open>
  The discipline of the bar chart: an undestroyed chart on its canvas is the one that
  \<^verbatim>\<open>optimizeChartInstance\<close> refers to.
\<close>

definition chart_inv :: "page \<Rightarrow> bool" where
  "chart_inv p \<longleftrightarrow> (\<forall>i \<in> set (live_charts ''optimizeChart'' p). optimizeChartInstance p = Some i)"

definition dispose_current :: "page \<Rightarrow> page" where
  \<comment> \<open>the first step of \<^verbatim>\<open>renderOptimizeChart\<close>\<close>
  "dispose_current p = (case optimizeChartInstance p of Some i \<Rightarrow> destroy i p | None \<Rightarrow> p)"

text \<open>Inputs for the concrete runs below.\<close>

definition eleven_funds :: "jsstring list" where
  "eleven_funds = [''000001'', ''000002'', ''000003'', ''000004'', ''000005'', ''000006'',
                   ''000007'', ''000008'', ''000009'', ''000010'', ''000011'']"

definition two_infos :: "fund_info list" where
  "two_infos = [[(''fund_code'', Str ''000001''), (''fund_name'', Str ''Alpha'')],
                [(''fund_code'', Str ''110022''), (''manager'', Str ''Li'')]]"

definition sample_weights :: optimize_data where
  "sample_weights = \<lparr>weights = Some [(''A'', number_value (6 / 10)), (''B'', number_value (4 / 10))]\<rparr>"

definition backtest_one :: backtest_data where
  "backtest_one = \<lparr>portfolio_value = Some [\<lparr>date = ''2024-01-01'', value' = Finite 1\<rparr>]\<rparr>"

definition backtest_two :: backtest_data where
  "backtest_two = \<lparr>portfolio_value = Some [\<lparr>date = ''2024-02-01'', value' = Finite 2\<rparr>]\<rparr>"

text \<open>
  The failures that the error handling is to cover: a network failure, a status outside
  200..299, a body that is not JSON.
\<close>

definition request_failed :: "'r fetched \<Rightarrow> bool" where
  "request_failed r =
     (case r of
        NetworkFailure \<Rightarrow> True
      | Response status b \<Rightarrow>
          status < 200 \<or> 299 < status \<or> (case b of MalformedJSON \<Rightarrow> True | JSON d \<Rightarrow> False))"

definition one_fund_page :: page where
  "one_fund_page = (blank_page True)\<lparr>fundList := [''000001''], toggleFundList_display := ''none''\<rparr>"

section \<open>Down-sampling\<close>

lemma upt_0_Suc: "[0 ..< Suc m] = 0 # map Suc [0 ..< m]"
proof -
  have "[0 ..< Suc m] = 0 # [Suc 0 ..< Suc m]"
    by (rule upt_conv_Cons) simp
  then show ?thesis
    by (simp only: map_Suc_upt)
qed

lemma samples_from:
  assumes "i < (L::nat)"
  shows "(L - i + 6) div 7 = Suc ((L - (i + 7) + 6) div 7)"
proof (cases "i + 7 \<le> L")
  case True
  then have "L - i + 6 = (L - (i + 7) + 6) + 7"
    by simp
  then show ?thesis
    by (simp only: div_add_self2)
next
  case False
  with assms have "7 * 1 \<le> L - i + 6" and "L - i + 6 < 7 * Suc 1" and z: "L - (i + 7) = 0"
    by simp_all
  then have "(L - i + 6) div 7 = 1"
    by (intro div_nat_eqI)
  with z show ?thesis
    by simp
qed

lemma sample_loop_eq:
  "sample_loop xs i acc = acc @ map (\<lambda>k. xs ! (i + 7 * k)) [0 ..< (length xs - i + 6) div 7]"
proof (induction xs i acc rule: sample_loop.induct)
  case (1 xs i acc)
  show ?case
  proof (cases "i < length xs")
    case True
    define m where "m = (length xs - (i + 7) + 6) div 7"
    from True have n: "(length xs - i + 6) div 7 = Suc m"
      unfolding m_def by (rule samples_from)
    have "sample_loop xs i acc = sample_loop xs (i + 7) (acc @ [xs ! i])"
      using True by (subst sample_loop.simps) (simp only: if_True)
    also have "\<dots> = (acc @ [xs ! i]) @ map (\<lambda>k. xs ! (i + 7 + 7 * k)) [0 ..< m]"
      unfolding m_def using True by (rule "1.IH")
    also have "\<dots> = acc @ map (\<lambda>k. xs ! (i + 7 * k)) [0 ..< Suc m]"
      by (simp only: upt_0_Suc) (simp add: o_def add.assoc)
    finally show ?thesis
      by (simp only: n)
  next
    case False
    then have "sample_loop xs i acc = acc"
      by (subst sample_loop.simps) (simp only: if_False)
    with False show ?thesis
      by simp
  qed
qed

lemma ceiling_div_7: "nat \<lceil>real n / 7\<rceil> = (n + 6) div 7"
proof -
  have "\<lceil>real n / 7\<rceil> = \<lceil>real_of_int (int n) / real_of_int 7\<rceil>"
    by simp
  also have "\<dots> = - ((- int n) div 7)"
    by (rule ceiling_divide_eq_div)
  also have "\<dots> = (int n + 6) div 7"
    by presburger
  finally have "nat \<lceil>real n / 7\<rceil> = nat ((int n + 6) div 7)"
    by simp
  also have "\<dots> = (n + 6) div 7"
    by (simp add: nat_div_distrib nat_add_distrib)
  finally show ?thesis .
qed

text \<open>
  C3. For an input sequence of length \<open>L\<close> the sampling loop of \<^verbatim>\<open>renderBacktestChart\<close>
  returns the elements at the indices \<open>0, 7, 14, ...\<close> below \<open>L\<close>, in order, and that
  is \<open>\<lceil>L / 7\<rceil>\<close> elements; the render logs the two lengths.
\<close>

theorem sample_loop_every_seventh:
  "sample_loop xs 0 [] = map (\<lambda>k. xs ! (7 * k)) [0 ..< nat \<lceil>real (length xs) / 7\<rceil>]
   \<and> length (sample_loop xs 0 []) = nat \<lceil>real (length xs) / 7\<rceil>
   \<and> console (page_of (renderBacktestChart (Some \<lparr>portfolio_value = Some ys\<rparr>) p)) =
       console p @ [LogLength ''Original data length:'' (length ys),
                    LogLength ''Sampled data length:'' (nat \<lceil>real (length ys) / 7\<rceil>)]"
  by (simp add: sample_loop_eq ceiling_div_7 renderBacktestChart_def new_Chart_def page_of_def
      console_log_def Let_def)

section \<open>The fund pool of a request\<close>

lemma split_from_nonempty: "split_from cur s \<noteq> []"
  by (induction s arbitrary: cur) auto

text \<open>
  C10. Splitting any string at commas gives a non-empty list, so the \<^verbatim>\<open>fund_pool\<close> or
  \<^verbatim>\<open>fund_codes\<close> of every optimize and backtest request has at least one element; for
  the empty input it is the list holding the empty string.
\<close>

theorem fund_pool_never_empty:
  "optimize_request.fund_pool (optimizeForm_request parseFloat s m r) \<noteq> []
   \<and> backtest_request.fund_pool (backtestForm_request s a b) \<noteq> []
   \<and> fund_codes (main_optimizeForm_request s a b) \<noteq> []
   \<and> split_comma [] = [[]]
   \<and> optimize_request.fund_pool (optimizeForm_request parseFloat [] m r) = [[]]
   \<and> backtest_request.fund_pool (backtestForm_request [] a b) = [[]]
   \<and> fund_codes (main_optimizeForm_request [] a b) = [[]]"
  by (simp add: optimizeForm_request_def backtestForm_request_def main_optimizeForm_request_def
      split_comma_def split_from_nonempty)

section \<open>The fund list and its toggle\<close>

lemma append_items_eq: "append_items xs p = p\<lparr>fundList := fundList p @ xs\<rparr>"
  by (induction xs arbitrary: p) auto

lemma filter_index_take:
  "map snd (filter (\<lambda>(i, x). \<not> n \<le> i) (zip [k ..< k + length xs] xs)) = take (n - k) xs"
proof (induction xs arbitrary: k)
  case Nil
  then show ?case by simp
next
  case (Cons x xs)
  have "[k ..< k + length (x # xs)] = k # [Suc k ..< Suc k + length xs]"
    by (simp add: upt_rec)
  with Cons [of "Suc k"] show ?case
    by (cases "n \<le> k") (simp_all add: take_Cons' Suc_diff_le not_le)
qed

lemma remove_extra_items_eq:
  "remove_extra_items p = p\<lparr>fundList := take MAX_FUNDS_TO_SHOW (fundList p)\<rparr>"
  using filter_index_take [of MAX_FUNDS_TO_SHOW 0 "fundList p"]
  by (simp add: remove_extra_items_def)

text \<open>
  C6. For a fund list of at most ten items \<^verbatim>\<open>displayFunds\<close> renders exactly these items
  and hides the toggle button; it registers no listener and leaves the label alone, so
  the toggle is never entered.
\<close>

theorem displayFunds_short:
  "length funds \<le> 10 \<Longrightarrow>
   displayFunds (Some funds) p =
     Normal (p\<lparr>fundList := funds, toggleFundList_display := ''none''\<rparr>)"
  by (simp add: displayFunds_def append_items_eq MAX_FUNDS_TO_SHOW_def)

theorem displayFunds_short_witness:
  "length [''000001'', ''110022''] \<le> (10 :: nat)
   \<and> displayFunds (Some [''000001'', ''110022'']) (blank_page True) =
       Normal ((blank_page True)\<lparr>fundList := [''000001'', ''110022''],
                                  toggleFundList_display := ''none''\<rparr>)"
  using displayFunds_short [of "[''000001'', ''110022'']" "blank_page True"] by simp

lemma list_labels_differ: "label_view_more \<noteq> label_collapse"
  by (simp add: label_view_more_def label_collapse_def)

lemma fundList_listener_eq:
  "fundList_listener funds p =
     (if toggleFundList_text p = label_view_more
      then p\<lparr>fundList := fundList p @ drop MAX_FUNDS_TO_SHOW funds, toggleFundList_text := label_collapse\<rparr>
      else p\<lparr>fundList := take MAX_FUNDS_TO_SHOW (fundList p), toggleFundList_text := label_view_more\<rparr>)"
  by (simp add: fundList_listener_def append_items_eq remove_extra_items_eq)

lemma run_list_frame:
  "run_list q ls = q\<lparr>fundList := fundList (run_list q ls),
                      toggleFundList_text := toggleFundList_text (run_list q ls)\<rparr>"
proof (induction ls rule: rev_induct)
  case Nil
  show ?case by simp
next
  case (snoc c ls)
  show ?case
    by (subst (1 2 3) foldl_append) (subst snoc.IH, simp add: fundList_listener_eq)
qed

lemma run_list_state:
  assumes "toggleFundList_text q = label_view_more"
    and "length (fundList q) = MAX_FUNDS_TO_SHOW"
  shows "if even (length ls)
         then toggleFundList_text (run_list q ls) = label_view_more
              \<and> fundList (run_list q ls) = fundList q
         else toggleFundList_text (run_list q ls) = label_collapse
              \<and> take MAX_FUNDS_TO_SHOW (fundList (run_list q ls)) = fundList q"
proof (induction ls rule: rev_induct)
  case Nil
  from assms show ?case by simp
next
  case (snoc c ls)
  from assms snoc show ?case
    by (auto simp: fundList_listener_eq list_labels_differ list_labels_differ [symmetric]
        split: if_splits)
qed

lemma click_toggleFundList_eq:
  assumes t: "toggleFundList_text q = label_view_more"
    and ls: "toggleFundList_click q = ls @ [fs]"
    and fl: "fundList q = take MAX_FUNDS_TO_SHOW fs"
    and len: "MAX_FUNDS_TO_SHOW < length fs"
  shows "click_toggleFundList q =
           (if even (length ls)
            then q\<lparr>fundList := fs, toggleFundList_text := label_collapse\<rparr>
            else q)"
proof -
  define r where "r = run_list q ls"
  have click: "click_toggleFundList q = fundList_listener fs r"
    by (simp add: click_toggleFundList_def ls r_def)
  have frame: "r = q\<lparr>fundList := fundList r, toggleFundList_text := toggleFundList_text r\<rparr>"
    unfolding r_def by (rule run_list_frame)
  from fl len have "length (fundList q) = MAX_FUNDS_TO_SHOW"
    by simp
  from run_list_state [OF t this, of ls]
  have st: "if even (length ls)
         then toggleFundList_text r = label_view_more \<and> fundList r = fundList q
         else toggleFundList_text r = label_collapse
              \<and> take MAX_FUNDS_TO_SHOW (fundList r) = fundList q"
    unfolding r_def .
  show ?thesis
  proof (cases "even (length ls)")
    case True
    with st have "toggleFundList_text r = label_view_more" and "fundList r = fundList q"
      by simp_all
    then have "fundList_listener fs r =
        q\<lparr>fundList := take MAX_FUNDS_TO_SHOW fs @ drop MAX_FUNDS_TO_SHOW fs,
            toggleFundList_text := label_collapse\<rparr>"
      by (subst fundList_listener_eq, subst (2) frame) (simp add: fl)
    with click True show ?thesis
      by simp
  next
    case False
    with st have "toggleFundList_text r = label_collapse"
      and "take MAX_FUNDS_TO_SHOW (fundList r) = fundList q"
      by simp_all
    then have "fundList_listener fs r =
        q\<lparr>fundList := fundList q, toggleFundList_text := label_view_more\<rparr>"
      by (subst fundList_listener_eq, subst (2) frame)
        (simp add: list_labels_differ [symmetric])
    with click False t show ?thesis
      by simp
  qed
qed

lemma click_collapse_toggleFundList:
  assumes t: "toggleFundList_text q = label_collapse"
    and ls: "toggleFundList_click q = [fs]"
  shows "click_toggleFundList q =
           q\<lparr>fundList := take MAX_FUNDS_TO_SHOW (fundList q), toggleFundList_text := label_view_more\<rparr>"
  using t by (simp add: click_toggleFundList_def ls fundList_listener_eq list_labels_differ [symmetric])

lemma displayFunds_long:
  assumes "MAX_FUNDS_TO_SHOW < length fs"
  shows "displayFunds (Some fs) p =
     Normal (p\<lparr>fundList := take MAX_FUNDS_TO_SHOW fs,
               toggleFundList_display := ''block'',
               toggleFundList_text := label_view_more,
               toggleFundList_click := toggleFundList_click p @ [fs]\<rparr>)"
  using assms by (simp add: displayFunds_def append_items_eq Let_def)

lemma displayFunds_first_render:
  assumes len: "MAX_FUNDS_TO_SHOW < length fs" and fresh: "toggleFundList_click p = []"
  shows "\<exists>q. displayFunds (Some fs) p = Normal q
           \<and> fundList q = take MAX_FUNDS_TO_SHOW fs
           \<and> fundList (click_toggleFundList q) = fs
           \<and> fundList (click_toggleFundList (click_toggleFundList q)) = take MAX_FUNDS_TO_SHOW fs"
proof -
  define q where "q = p\<lparr>fundList := take MAX_FUNDS_TO_SHOW fs,
               toggleFundList_display := ''block'',
               toggleFundList_text := label_view_more,
               toggleFundList_click := toggleFundList_click p @ [fs]\<rparr>"
  define q1 where "q1 = q\<lparr>fundList := fs, toggleFundList_text := label_collapse\<rparr>"
  have d: "displayFunds (Some fs) p = Normal q"
    unfolding q_def using len by (rule displayFunds_long)
  have "click_toggleFundList q = (if even (length ([] :: jsstring list list)) then q1 else q)"
    unfolding q1_def using len fresh by (intro click_toggleFundList_eq) (simp_all add: q_def)
  then have 1: "click_toggleFundList q = q1"
    by simp
  have 2: "click_toggleFundList q1 =
       q1\<lparr>fundList := take MAX_FUNDS_TO_SHOW (fundList q1), toggleFundList_text := label_view_more\<rparr>"
    using fresh by (intro click_collapse_toggleFundList) (simp_all add: q1_def q_def)
  have "fundList q = take MAX_FUNDS_TO_SHOW fs" "fundList q1 = fs"
    by (simp_all add: q1_def q_def)
  with d show ?thesis
    by (intro exI [of _ q]) (simp add: 1 2)
qed

lemma displayFunds_all_eq:
  assumes "\<forall>fs \<in> set fss. MAX_FUNDS_TO_SHOW < length fs"
  shows "displayFunds_all fss p =
     (if fss = [] then p
      else p\<lparr>fundList := take MAX_FUNDS_TO_SHOW (last fss),
             toggleFundList_display := ''block'',
             toggleFundList_text := label_view_more,
             toggleFundList_click := toggleFundList_click p @ fss\<rparr>)"
  using assms
proof (induction fss rule: rev_induct)
  case Nil
  show ?case by (simp add: displayFunds_all_def)
next
  case (snoc fs fss)
  have "displayFunds_all (fss @ [fs]) p =
          page_of (displayFunds (Some fs) (displayFunds_all fss p))"
    by (simp add: displayFunds_all_def)
  with snoc show ?case
    by (simp add: page_of_def displayFunds_long)
qed

text \<open>
  C2. The claim: for every fund list of more than ten items that \<^verbatim>\<open>displayFunds\<close> renders,
  one click of the toggle shows all items. It holds for the first such render on a page
  (\<open>displayFunds_first_render\<close>). Here the same eleven funds are rendered twice on a fresh
  page and the button is clicked once: both listeners run, the second undoes the first,
  and the list still shows ten items under the label for viewing more.
\<close>

theorem displayFunds_rerender_click:
  "displayFunds (Some eleven_funds) (blank_page True) = Normal (displayFunds_all [eleven_funds] (blank_page True))
   \<and> displayFunds (Some eleven_funds) (displayFunds_all [eleven_funds] (blank_page True)) =
       Normal (displayFunds_all [eleven_funds, eleven_funds] (blank_page True))
   \<and> fundList (click_toggleFundList (displayFunds_all [eleven_funds, eleven_funds] (blank_page True))) =
       take 10 eleven_funds
   \<and> fundList (click_toggleFundList (displayFunds_all [eleven_funds, eleven_funds] (blank_page True))) \<noteq>
       eleven_funds
   \<and> toggleFundList_text (click_toggleFundList (displayFunds_all [eleven_funds, eleven_funds] (blank_page True))) =
       label_view_more"
proof -
  define b where "b = blank_page True"
  define q2 where "q2 = displayFunds_all [eleven_funds, eleven_funds] b"
  have len: "MAX_FUNDS_TO_SHOW < length eleven_funds"
    by (simp add: eleven_funds_def MAX_FUNDS_TO_SHOW_def)
  have fresh: "toggleFundList_click b = []"
    by (simp add: b_def blank_page_def)
  have 1: "displayFunds_all [eleven_funds] b =
      b\<lparr>fundList := take MAX_FUNDS_TO_SHOW eleven_funds,
        toggleFundList_display := ''block'',
        toggleFundList_text := label_view_more,
        toggleFundList_click := [eleven_funds]\<rparr>"
    using len fresh by (simp add: displayFunds_all_eq)
  have 2: "q2 =
      b\<lparr>fundList := take MAX_FUNDS_TO_SHOW eleven_funds,
        toggleFundList_display := ''block'',
        toggleFundList_text := label_view_more,
        toggleFundList_click := [eleven_funds, eleven_funds]\<rparr>"
    using len fresh by (simp add: q2_def displayFunds_all_eq)
  have d1: "displayFunds (Some eleven_funds) b = Normal (displayFunds_all [eleven_funds] b)"
    using fresh by (simp add: displayFunds_long [OF len] 1)
  have d2: "displayFunds (Some eleven_funds) (displayFunds_all [eleven_funds] b) = Normal q2"
    by (simp add: displayFunds_long [OF len] 1 2)
  have "click_toggleFundList q2 =
     (if even (length [eleven_funds])
      then q2\<lparr>fundList := eleven_funds, toggleFundList_text := label_collapse\<rparr>
      else q2)"
    using len by (intro click_toggleFundList_eq) (simp_all add: 2)
  then have 3: "click_toggleFundList q2 = q2"
    by simp
  have 4: "fundList q2 = take 10 eleven_funds" "toggleFundList_text q2 = label_view_more"
    by (simp_all add: 2 MAX_FUNDS_TO_SHOW_def)
  have 5: "take 10 eleven_funds \<noteq> eleven_funds"
    by (simp add: eleven_funds_def)
  show ?thesis
    unfolding b_def [symmetric] q2_def [symmetric]
    by (simp only: d1 d2 3 4 5) simp
qed

section \<open>The fund info and its toggle\<close>

lemma info_labels_differ: "label_expand_full \<noteq> label_collapse_full"
  by (simp add: label_expand_full_def label_collapse_full_def)

lemma run_info_frame:
  "run_info q ls = q\<lparr>fundInfoContent := fundInfoContent (run_info q ls),
                      toggleFundInfo_text := toggleFundInfo_text (run_info q ls)\<rparr>"
proof (induction ls rule: rev_induct)
  case Nil
  show ?case by simp
next
  case (snoc c ls)
  obtain s f where c: "c = (s, f)" by (cases c)
  show ?case
    by (subst (1 2 3) foldl_append) (subst snoc.IH, simp add: fundInfo_listener_def c)
qed

lemma run_info_text:
  assumes "toggleFundInfo_text q = label_expand_full \<or> toggleFundInfo_text q = label_collapse_full"
  shows "toggleFundInfo_text (run_info q ls) =
           (if even (length ls) then toggleFundInfo_text q
            else if toggleFundInfo_text q = label_expand_full then label_collapse_full
            else label_expand_full)"
proof (induction ls rule: rev_induct)
  case Nil
  show ?case by simp
next
  case (snoc c ls)
  obtain s f where c: "c = (s, f)" by (cases c)
  from assms snoc show ?case
    by (auto simp: fundInfo_listener_def c info_labels_differ)
qed

lemma fundInfo_listener_pair:
  "fundInfo_listener (s, f) p =
     (if toggleFundInfo_text p = label_expand_full
      then p\<lparr>fundInfoContent := Stringify f, toggleFundInfo_text := label_collapse_full\<rparr>
      else p\<lparr>fundInfoContent := Stringify s, toggleFundInfo_text := label_expand_full\<rparr>)"
  by (simp add: fundInfo_listener_def)

lemma click_toggleFundInfo_eq:
  assumes t: "toggleFundInfo_text q = label_expand_full \<or> toggleFundInfo_text q = label_collapse_full"
    and ls: "toggleFundInfo_click q = ls @ [(s, f)]"
  shows "click_toggleFundInfo q =
           (if even (length ls) = (toggleFundInfo_text q = label_expand_full)
            then q\<lparr>fundInfoContent := Stringify f, toggleFundInfo_text := label_collapse_full\<rparr>
            else q\<lparr>fundInfoContent := Stringify s, toggleFundInfo_text := label_expand_full\<rparr>)"
proof -
  define r where "r = run_info q ls"
  have click: "click_toggleFundInfo q = fundInfo_listener (s, f) r"
    by (simp add: click_toggleFundInfo_def ls r_def)
  have frame: "r = q\<lparr>fundInfoContent := fundInfoContent r, toggleFundInfo_text := toggleFundInfo_text r\<rparr>"
    unfolding r_def by (rule run_info_frame)
  have lbl: "toggleFundInfo_text r =
           (if even (length ls) then toggleFundInfo_text q
            else if toggleFundInfo_text q = label_expand_full then label_collapse_full
            else label_expand_full)"
    unfolding r_def by (rule run_info_text [OF t])
  have "fundInfo_listener (s, f) r =
     (if toggleFundInfo_text r = label_expand_full
      then q\<lparr>fundInfoContent := Stringify f, toggleFundInfo_text := label_collapse_full\<rparr>
      else q\<lparr>fundInfoContent := Stringify s, toggleFundInfo_text := label_expand_full\<rparr>)"
    by (subst fundInfo_listener_pair, subst (2 3) frame) simp
  with click lbl t show ?thesis
    by (auto simp: info_labels_differ info_labels_differ [symmetric])
qed

lemma click_twice_toggleFundInfo:
  assumes t: "toggleFundInfo_text q = label_expand_full"
    and ls: "toggleFundInfo_click q = ls @ [(s, f)]"
    and c: "fundInfoContent q = Stringify s"
  shows "click_toggleFundInfo (click_toggleFundInfo q) = q"
proof (cases "even (length ls)")
  case True
  let ?q1 = "q\<lparr>fundInfoContent := Stringify f, toggleFundInfo_text := label_collapse_full\<rparr>"
  from True t ls have 1: "click_toggleFundInfo q = ?q1"
    by (simp add: click_toggleFundInfo_eq)
  have "click_toggleFundInfo ?q1 =
          ?q1\<lparr>fundInfoContent := Stringify s, toggleFundInfo_text := label_expand_full\<rparr>"
    using True ls by (subst click_toggleFundInfo_eq [of _ ls s f]) (simp_all add: info_labels_differ [symmetric])
  also have "\<dots> = q"
    using t c by simp
  finally show ?thesis
    by (simp only: 1)
next
  case False
  from False t ls have "click_toggleFundInfo q =
      q\<lparr>fundInfoContent := Stringify s, toggleFundInfo_text := label_expand_full\<rparr>"
    by (simp add: click_toggleFundInfo_eq)
  also have "\<dots> = q"
    using t c by simp
  finally show ?thesis
    by simp
qed

lemma displayFundInfo_all_eq:
  "displayFundInfo_all objs p =
     (if objs = [] then p
      else p\<lparr>fundInfoContent := Stringify (summary_of (last objs)),
             toggleFundInfo_text := label_expand_full,
             toggleFundInfo_click :=
               toggleFundInfo_click p @ map (\<lambda>obj. (summary_of obj, Obj obj)) objs\<rparr>)"
proof (induction objs rule: rev_induct)
  case Nil
  show ?case by (simp add: displayFundInfo_all_def)
next
  case (snoc obj objs)
  have "displayFundInfo_all (objs @ [obj]) p =
          page_of (displayFundInfo (Some obj) (displayFundInfo_all objs p))"
    by (simp add: displayFundInfo_all_def)
  then show ?case
    by (simp add: snoc page_of_def displayFundInfo_def Let_def)
qed

text \<open>
  C4. On any page, \<^verbatim>\<open>displayFundInfo\<close> of an object shows the summary of its four fields
  under the label for expanding; two clicks of the toggle then give back exactly the page
  before the first click, however many listeners the button carries; and calling
  \<^verbatim>\<open>displayFundInfo\<close> again with another object, also after a click, shows that object's
  summary under the label for expanding.
\<close>

theorem displayFundInfo_two_clicks:
  "let q = p\<lparr>fundInfoContent := Stringify (summary_of obj),
               toggleFundInfo_text := label_expand_full,
               toggleFundInfo_click := toggleFundInfo_click p @ [(summary_of obj, Obj obj)]\<rparr>
   in displayFundInfo (Some obj) p = Normal q
      \<and> summary_of obj = Obj [(key_fund_code, property obj ''fund_code''),
                               (key_fund_name, property obj ''fund_name''),
                               (key_fund_type, property obj ''fund_type''),
                               (key_manager, property obj ''manager'')]
      \<and> click_toggleFundInfo (click_toggleFundInfo q) = q
      \<and> fundInfoContent (click_toggleFundInfo (click_toggleFundInfo q)) = Stringify (summary_of obj)
      \<and> toggleFundInfo_text (click_toggleFundInfo (click_toggleFundInfo q)) = label_expand_full
      \<and> fundInfoContent (page_of (displayFundInfo (Some obj') (click_toggleFundInfo q))) =
          Stringify (summary_of obj')
      \<and> toggleFundInfo_text (page_of (displayFundInfo (Some obj') (click_toggleFundInfo q))) =
          label_expand_full"
proof -
  let ?q = "p\<lparr>fundInfoContent := Stringify (summary_of obj),
               toggleFundInfo_text := label_expand_full,
               toggleFundInfo_click := toggleFundInfo_click p @ [(summary_of obj, Obj obj)]\<rparr>"
  have 1: "displayFundInfo (Some obj) p = Normal ?q"
    by (simp add: displayFundInfo_def Let_def)
  have 2: "click_toggleFundInfo (click_toggleFundInfo ?q) = ?q"
    by (rule click_twice_toggleFundInfo [of _ "toggleFundInfo_click p" "summary_of obj" "Obj obj"])
      simp_all
  have 3: "fundInfoContent (page_of (displayFundInfo (Some obj') r)) = Stringify (summary_of obj')
      \<and> toggleFundInfo_text (page_of (displayFundInfo (Some obj') r)) = label_expand_full" for r
    by (simp add: displayFundInfo_def page_of_def Let_def)
  show ?thesis
    unfolding Let_def by (simp only: 1 2 3) (simp add: summary_of_def)
qed

section \<open>Listeners accumulate\<close>

text \<open>
  C9. Every call of \<^verbatim>\<open>displayFundInfo\<close>, and every call of \<^verbatim>\<open>displayFunds\<close> with more
  than ten funds, adds a click listener to its button and removes none: after \<open>n\<close> calls
  the button carries the listeners it had and \<open>n\<close> more, one per call and in call order.
  A click runs all of them, each toggling once. When their number is even (two calls on
  a fresh page) the click changes nothing; when it is odd its effect is that of one
  toggle.
\<close>

theorem listeners_accumulate:
  assumes "objs \<noteq> []" and "fss \<noteq> []"
    and "\<forall>fs \<in> set fss. MAX_FUNDS_TO_SHOW < length fs"
  shows "toggleFundInfo_click (displayFundInfo_all objs p) =
           toggleFundInfo_click p @ map (\<lambda>obj. (summary_of obj, Obj obj)) objs
    \<and> click_toggleFundInfo (displayFundInfo_all objs p) =
        run_info (displayFundInfo_all objs p)
          (toggleFundInfo_click p @ map (\<lambda>obj. (summary_of obj, Obj obj)) objs)
    \<and> click_toggleFundInfo (displayFundInfo_all objs p) =
        (if even (length (toggleFundInfo_click p) + length objs) then displayFundInfo_all objs p
         else (displayFundInfo_all objs p)\<lparr>fundInfoContent := Stringify (Obj (last objs)),
                                            toggleFundInfo_text := label_collapse_full\<rparr>)
    \<and> toggleFundList_click (displayFunds_all fss p) = toggleFundList_click p @ fss
    \<and> click_toggleFundList (displayFunds_all fss p) =
        run_list (displayFunds_all fss p) (toggleFundList_click p @ fss)
    \<and> click_toggleFundList (displayFunds_all fss p) =
        (if even (length (toggleFundList_click p) + length fss) then displayFunds_all fss p
         else (displayFunds_all fss p)\<lparr>fundList := last fss,
                                         toggleFundList_text := label_collapse\<rparr>)"
proof -
  define qi where "qi = displayFundInfo_all objs p"
  define qf where "qf = displayFunds_all fss p"
  define F where "F = (\<lambda>obj. (summary_of obj, Obj obj))"
  from assms have qi: "qi = p\<lparr>fundInfoContent := Stringify (summary_of (last objs)),
             toggleFundInfo_text := label_expand_full,
             toggleFundInfo_click := toggleFundInfo_click p @ map F objs\<rparr>"
    by (simp add: qi_def F_def displayFundInfo_all_eq)
  from assms have qf: "qf = p\<lparr>fundList := take MAX_FUNDS_TO_SHOW (last fss),
             toggleFundList_display := ''block'',
             toggleFundList_text := label_view_more,
             toggleFundList_click := toggleFundList_click p @ fss\<rparr>"
    by (simp add: qf_def displayFunds_all_eq)
  have i1: "toggleFundInfo_click qi = toggleFundInfo_click p @ map F objs"
    by (simp add: qi)
  have i2: "click_toggleFundInfo qi = run_info qi (toggleFundInfo_click p @ map F objs)"
    by (simp add: click_toggleFundInfo_def i1)
  from \<open>objs \<noteq> []\<close> have li: "toggleFundInfo_click qi =
      (toggleFundInfo_click p @ map F (butlast objs)) @ [(summary_of (last objs), Obj (last objs))]"
    by (cases objs rule: rev_cases) (simp_all add: qi F_def)
  have "click_toggleFundInfo qi =
      (if even (length (toggleFundInfo_click p @ map F (butlast objs)))
             = (toggleFundInfo_text qi = label_expand_full)
       then qi\<lparr>fundInfoContent := Stringify (Obj (last objs)), toggleFundInfo_text := label_collapse_full\<rparr>
       else qi\<lparr>fundInfoContent := Stringify (summary_of (last objs)), toggleFundInfo_text := label_expand_full\<rparr>)"
    using li by (intro click_toggleFundInfo_eq) (simp_all add: qi)
  moreover have "qi\<lparr>fundInfoContent := Stringify (summary_of (last objs)), toggleFundInfo_text := label_expand_full\<rparr> = qi"
    by (simp add: qi)
  moreover have "toggleFundInfo_text qi = label_expand_full"
    by (simp add: qi)
  moreover from \<open>objs \<noteq> []\<close>
  have "even (length (toggleFundInfo_click p @ map F (butlast objs)))
      = odd (length (toggleFundInfo_click p) + length objs)"
    by (cases objs rule: rev_cases) simp_all
  ultimately have i3: "click_toggleFundInfo qi =
        (if even (length (toggleFundInfo_click p) + length objs) then qi
         else qi\<lparr>fundInfoContent := Stringify (Obj (last objs)),
                 toggleFundInfo_text := label_collapse_full\<rparr>)"
    by simp
  have f1: "toggleFundList_click qf = toggleFundList_click p @ fss"
    by (simp add: qf)
  have f2: "click_toggleFundList qf = run_list qf (toggleFundList_click p @ fss)"
    by (simp add: click_toggleFundList_def f1)
  from \<open>fss \<noteq> []\<close> have lf: "toggleFundList_click qf = (toggleFundList_click p @ butlast fss) @ [last fss]"
    by (simp add: qf)
  from assms have "MAX_FUNDS_TO_SHOW < length (last fss)"
    by simp
  then have "click_toggleFundList qf =
           (if even (length (toggleFundList_click p @ butlast fss))
            then qf\<lparr>fundList := last fss, toggleFundList_text := label_collapse\<rparr>
            else qf)"
    using lf by (intro click_toggleFundList_eq) (simp_all add: qf)
  moreover from \<open>fss \<noteq> []\<close>
  have "even (length (toggleFundList_click p @ butlast fss))
      = odd (length (toggleFundList_click p) + length fss)"
    by (cases fss rule: rev_cases) simp_all
  ultimately have f3: "click_toggleFundList qf =
        (if even (length (toggleFundList_click p) + length fss) then qf
         else qf\<lparr>fundList := last fss, toggleFundList_text := label_collapse\<rparr>)"
    by simp
  show ?thesis
    unfolding qi_def [symmetric] qf_def [symmetric] F_def [symmetric]
    using i1 i2 i3 f1 f2 f3 by (intro conjI)
qed

theorem listeners_accumulate_witness:
  "two_infos \<noteq> [] \<and> [eleven_funds, eleven_funds] \<noteq> []
   \<and> MAX_FUNDS_TO_SHOW < length eleven_funds
   \<and> length (toggleFundInfo_click (displayFundInfo_all two_infos (blank_page True))) = 2
   \<and> click_toggleFundInfo (displayFundInfo_all two_infos (blank_page True)) =
       displayFundInfo_all two_infos (blank_page True)
   \<and> length (toggleFundList_click (displayFunds_all [eleven_funds, eleven_funds] (blank_page True))) = 2
   \<and> click_toggleFundList (displayFunds_all [eleven_funds, eleven_funds] (blank_page True)) =
       displayFunds_all [eleven_funds, eleven_funds] (blank_page True)"
proof -
  have fresh: "toggleFundInfo_click (blank_page True) = []" "toggleFundList_click (blank_page True) = []"
    by (simp_all add: blank_page_def)
  have h1: "two_infos \<noteq> []" and l1: "length two_infos = 2"
    by (simp_all add: two_infos_def)
  have h2: "[eleven_funds, eleven_funds] \<noteq> []"
    by simp
  have h3: "MAX_FUNDS_TO_SHOW < length eleven_funds"
    by (simp add: eleven_funds_def MAX_FUNDS_TO_SHOW_def)
  then have h4: "\<forall>fs \<in> set [eleven_funds, eleven_funds]. MAX_FUNDS_TO_SHOW < length fs"
    by simp
  note th = listeners_accumulate [OF h1 h2 h4, of "blank_page True"]
  from th [THEN conjunct1] have 1:
    "length (toggleFundInfo_click (displayFundInfo_all two_infos (blank_page True))) = 2"
    by (simp add: fresh l1)
  from th [THEN conjunct2, THEN conjunct2, THEN conjunct1] have 2:
    "click_toggleFundInfo (displayFundInfo_all two_infos (blank_page True)) =
       displayFundInfo_all two_infos (blank_page True)"
    by (simp add: fresh l1)
  from th [THEN conjunct2, THEN conjunct2, THEN conjunct2, THEN conjunct1] have 3:
    "length (toggleFundList_click (displayFunds_all [eleven_funds, eleven_funds] (blank_page True))) = 2"
    by (simp add: fresh)
  from th [THEN conjunct2, THEN conjunct2, THEN conjunct2, THEN conjunct2, THEN conjunct2] have 4:
    "click_toggleFundList (displayFunds_all [eleven_funds, eleven_funds] (blank_page True)) =
       displayFunds_all [eleven_funds, eleven_funds] (blank_page True)"
    by (simp add: fresh)
  from h1 h2 h3 1 2 3 4 show ?thesis
    by (intro conjI)
qed

section \<open>Charts\<close>

lemma live_charts_iff:
  "i \<in> set (live_charts cv p) \<longleftrightarrow>
     i < length (charts p) \<and> canvas (charts p ! i) = cv \<and> \<not> destroyed (charts p ! i)"
  by (auto simp: live_charts_def)

lemma live_charts_append:
  "live_charts cv (p\<lparr>charts := charts p @ [c]\<rparr>) =
     live_charts cv p @ (if canvas c = cv \<and> \<not> destroyed c then [length (charts p)] else [])"
proof -
  have "filter (\<lambda>i. canvas ((charts p @ [c]) ! i) = cv \<and> \<not> destroyed ((charts p @ [c]) ! i))
          [0 ..< length (charts p)]
      = filter (\<lambda>i. canvas (charts p ! i) = cv \<and> \<not> destroyed (charts p ! i)) [0 ..< length (charts p)]"
    by (rule filter_cong) (simp_all add: nth_append)
  then show ?thesis
    by (simp add: live_charts_def)
qed

lemma live_charts_destroy:
  "live_charts cv (destroy j p) = filter (\<lambda>i. i \<noteq> j) (live_charts cv p)"
proof (cases "j < length (charts p)")
  case True
  have "filter (\<lambda>i. canvas ((charts p)[j := (charts p ! j)\<lparr>destroyed := True\<rparr>] ! i) = cv
                   \<and> \<not> destroyed ((charts p)[j := (charts p ! j)\<lparr>destroyed := True\<rparr>] ! i))
          [0 ..< length (charts p)]
      = filter (\<lambda>i. (canvas (charts p ! i) = cv \<and> \<not> destroyed (charts p ! i)) \<and> i \<noteq> j)
          [0 ..< length (charts p)]"
    using True by (intro filter_cong refl) (auto simp: nth_list_update)
  with True show ?thesis
    by (simp add: live_charts_def destroy_def)
next
  case False
  then have "filter (\<lambda>i. i \<noteq> j) (live_charts cv p) = live_charts cv p"
    by (intro filter_True) (auto simp: live_charts_iff)
  with False show ?thesis
    by (simp add: destroy_def)
qed

lemma length_charts_destroy: "length (charts (destroy j p)) = length (charts p)"
  by (simp add: destroy_def)

lemma other_fields_destroy:
  "optimizeChartInstance (destroy j p) = optimizeChartInstance p"
  "canvas_check (destroy j p) = canvas_check p"
  by (simp_all add: destroy_def)

lemma live_charts_dispose_current:
  assumes "chart_inv p"
  shows "live_charts ''optimizeChart'' (dispose_current p) = []"
proof (cases "optimizeChartInstance p")
  case None
  with assms have "set (live_charts ''optimizeChart'' p) = {}"
    by (auto simp: chart_inv_def)
  with None show ?thesis
    by (simp add: dispose_current_def)
next
  case (Some j)
  with assms have "\<forall>i \<in> set (live_charts ''optimizeChart'' p). i = j"
    by (simp add: chart_inv_def)
  then have "filter (\<lambda>i. i \<noteq> j) (live_charts ''optimizeChart'' p) = []"
    by (simp add: filter_empty_conv)
  with Some show ?thesis
    by (simp add: dispose_current_def live_charts_destroy)
qed

lemma renderOptimizeChart_eq:
  assumes inv: "chart_inv p" and w: "weights d = Some w"
  shows "renderOptimizeChart (Some d) p =
           Normal ((dispose_current p)
             \<lparr>charts := charts (dispose_current p) @
                  [\<lparr>canvas = ''optimizeChart'', config = BarChart (map fst w) (map snd w),
                    destroyed = False\<rparr>],
              optimizeChartInstance := Some (length (charts p))\<rparr>)"
proof -
  have "length (charts (dispose_current p)) = length (charts p)"
    by (simp add: dispose_current_def length_charts_destroy split: option.split)
  with live_charts_dispose_current [OF inv] w show ?thesis
    by (simp add: renderOptimizeChart_def new_Chart_def dispose_current_def [symmetric] Let_def)
qed

lemma live_charts_charts_only:
  assumes "charts q = charts p"
  shows "live_charts cv q = live_charts cv p"
  using assms by (simp add: live_charts_def)

lemma renderOptimizeChart_live:
  assumes inv: "chart_inv p" and w: "weights d = Some w"
  shows "\<exists>p'. renderOptimizeChart (Some d) p = Normal p'
          \<and> live_charts ''optimizeChart'' p' = [length (charts p)]
          \<and> optimizeChartInstance p' = Some (length (charts p))
          \<and> length (charts p') = Suc (length (charts p))
          \<and> (\<forall>i < length (charts p). destroyed (charts p ! i) \<longrightarrow> destroyed (charts p' ! i))
          \<and> (\<forall>i. optimizeChartInstance p = Some i \<and> i < length (charts p) \<longrightarrow> destroyed (charts p' ! i))"
proof -
  define q where "q = dispose_current p"
  define c where "c = \<lparr>canvas = ''optimizeChart'', config = BarChart (map fst w) (map snd w),
                    destroyed = False\<rparr>"
  define p' where "p' = q\<lparr>charts := charts q @ [c], optimizeChartInstance := Some (length (charts p))\<rparr>"
  have r: "renderOptimizeChart (Some d) p = Normal p'"
    unfolding p'_def q_def c_def using inv w by (rule renderOptimizeChart_eq)
  have len: "length (charts q) = length (charts p)"
    by (simp add: q_def dispose_current_def length_charts_destroy split: option.split)
  have "live_charts ''optimizeChart'' p' = live_charts ''optimizeChart'' (q\<lparr>charts := charts q @ [c]\<rparr>)"
    by (rule live_charts_charts_only) (simp add: p'_def)
  also have "\<dots> = live_charts ''optimizeChart'' q @ [length (charts q)]"
    by (simp add: live_charts_append c_def)
  also have "\<dots> = [length (charts p)]"
    using live_charts_dispose_current [OF inv] by (simp add: q_def [symmetric] len)
  finally have live: "live_charts ''optimizeChart'' p' = [length (charts p)]" .
  have keep: "destroyed (charts p ! i) \<longrightarrow> destroyed (charts q ! i)" if "i < length (charts p)" for i
    using that
    by (auto simp: q_def dispose_current_def destroy_def nth_list_update split: option.split)
  have cur: "destroyed (charts q ! i)" if "optimizeChartInstance p = Some i" "i < length (charts p)" for i
    using that by (simp add: q_def dispose_current_def destroy_def)
  from keep cur len have
    "(\<forall>i < length (charts p). destroyed (charts p ! i) \<longrightarrow> destroyed (charts p' ! i))
     \<and> (\<forall>i. optimizeChartInstance p = Some i \<and> i < length (charts p) \<longrightarrow> destroyed (charts p' ! i))"
    by (simp add: p'_def nth_append)
  with r live len show ?thesis
    by (intro exI [of _ p']) (simp add: p'_def)
qed

lemma chart_inv_single:
  assumes "live_charts ''optimizeChart'' p = [i]" and "optimizeChartInstance p = Some i"
  shows "chart_inv p"
  using assms by (simp add: chart_inv_def)

lemma chart_inv_blank: "chart_inv (blank_page check)"
  by (simp add: chart_inv_def live_charts_def blank_page_def)

text \<open>
  C5. On a page that keeps the discipline of the bar chart (every page the script can
  reach does, see \<open>chart_inv_run\<close>), two calls of \<^verbatim>\<open>renderOptimizeChart\<close> with weights
  leave exactly one undestroyed chart on the canvas: the second call destroys the chart
  of the first and then constructs its own.
\<close>

theorem renderOptimizeChart_twice:
  assumes inv: "chart_inv p" and w1: "weights d1 = Some w1" and w2: "weights d2 = Some w2"
  shows "\<exists>p1 p2. renderOptimizeChart (Some d1) p = Normal p1
           \<and> renderOptimizeChart (Some d2) p1 = Normal p2
           \<and> live_charts ''optimizeChart'' p1 = [length (charts p)]
           \<and> live_charts ''optimizeChart'' p2 = [Suc (length (charts p))]
           \<and> destroyed (charts p2 ! length (charts p))"
proof -
  from renderOptimizeChart_live [OF inv w1] obtain p1 where
    r1: "renderOptimizeChart (Some d1) p = Normal p1"
    and l1: "live_charts ''optimizeChart'' p1 = [length (charts p)]"
    and i1: "optimizeChartInstance p1 = Some (length (charts p))"
    and n1: "length (charts p1) = Suc (length (charts p))"
    by blast
  from l1 i1 have inv1: "chart_inv p1"
    by (rule chart_inv_single)
  from renderOptimizeChart_live [OF inv1 w2] obtain p2 where
    r2: "renderOptimizeChart (Some d2) p1 = Normal p2"
    and l2: "live_charts ''optimizeChart'' p2 = [length (charts p1)]"
    and d2: "\<forall>i. optimizeChartInstance p1 = Some i \<and> i < length (charts p1) \<longrightarrow> destroyed (charts p2 ! i)"
    by blast
  from d2 i1 n1 have "destroyed (charts p2 ! length (charts p))"
    by simp
  with r1 r2 l1 l2 n1 show ?thesis
    by auto
qed

theorem renderOptimizeChart_twice_witness:
  "chart_inv (blank_page True)
   \<and> weights sample_weights = Some [(''A'', number_value (6 / 10)), (''B'', number_value (4 / 10))]
   \<and> (\<exists>p1 p2. renderOptimizeChart (Some sample_weights) (blank_page True) = Normal p1
           \<and> renderOptimizeChart (Some sample_weights) p1 = Normal p2
           \<and> live_charts ''optimizeChart'' p1 = [0]
           \<and> live_charts ''optimizeChart'' p2 = [1]
           \<and> destroyed (charts p2 ! 0))"
  using renderOptimizeChart_twice [of "blank_page True" sample_weights _ sample_weights, OF chart_inv_blank]
  by (simp add: sample_weights_def chart_inv_blank) (simp add: blank_page_def)

lemma sample_loop_single: "sample_loop [x] 0 [] = [x]"
  by (simp add: sample_loop_eq)

lemma renderBacktestChart_keeps_charts:
  "charts (page_of (renderBacktestChart data p)) = charts p
   \<or> (\<exists>cfg. charts (page_of (renderBacktestChart data p)) =
                charts p @ [\<lparr>canvas = ''backtestChart'', config = cfg, destroyed = False\<rparr>])"
  by (simp add: renderBacktestChart_def new_Chart_def page_of_def console_log_def Let_def
      split: option.split)

text \<open>
  C1. The claim: every chart render disposes the chart on its canvas before it constructs
  a new one. \<^verbatim>\<open>renderOptimizeChart\<close> does; \<^verbatim>\<open>renderBacktestChart\<close> never destroys a chart
  (\<open>renderBacktestChart_keeps_charts\<close>). Two backtest renders on a fresh page: where the
  library allows it, two undestroyed charts share the canvas; where the library checks
  the canvas, the second render throws and the canvas keeps the chart of the first.
\<close>

theorem renderBacktestChart_twice:
  "(let q1 = page_of (renderBacktestChart (Some backtest_one) (blank_page False));
        q2 = page_of (renderBacktestChart (Some backtest_two) q1)
    in renderBacktestChart (Some backtest_two) q1 = Normal q2
       \<and> live_charts ''backtestChart'' q1 = [0]
       \<and> live_charts ''backtestChart'' q2 = [0, 1]
       \<and> map destroyed (charts q2) = [False, False])
   \<and> (let q1 = page_of (renderBacktestChart (Some backtest_one) (blank_page True));
            q2 = page_of (renderBacktestChart (Some backtest_two) q1)
        in renderBacktestChart (Some backtest_two) q1 = Throw CanvasInUse q2
           \<and> live_charts ''backtestChart'' q1 = [0]
           \<and> live_charts ''backtestChart'' q2 = [0]
           \<and> map destroyed (charts q2) = [False]
           \<and> map config (charts q2) = [LineChart [''2024-01-01''] [Finite 1]])"
  by (simp add: renderBacktestChart_def new_Chart_def live_charts_def blank_page_def
      console_log_def page_of_def sample_loop_single backtest_one_def backtest_two_def Let_def
      upt_conv_Cons)

subsection \<open>The discipline holds on every reachable page\<close>

lemma chart_inv_cong:
  assumes "charts q = charts p \<and> optimizeChartInstance q = optimizeChartInstance p"
  shows "chart_inv q = chart_inv p"
  using assms by (simp add: chart_inv_def live_charts_def)

lemma catch_log_charts:
  "charts (catch_log c) = charts (page_of c)
   \<and> optimizeChartInstance (catch_log c) = optimizeChartInstance (page_of c)"
  by (cases c) (simp_all add: catch_log_def page_of_def console_log_def)

lemma page_of_await_json:
  "page_of (await_json r rest p) =
     (case r of Response st (JSON d) \<Rightarrow> page_of (rest d p) | _ \<Rightarrow> p)"
  by (simp add: await_json_def page_of_def split: fetched.split body.split)

lemma displayFunds_charts:
  "charts (page_of (displayFunds funds p)) = charts p
   \<and> optimizeChartInstance (page_of (displayFunds funds p)) = optimizeChartInstance p"
  by (cases funds) (simp_all add: displayFunds_def append_items_eq page_of_def Let_def)

lemma displayFundInfo_charts:
  "charts (page_of (displayFundInfo info p)) = charts p
   \<and> optimizeChartInstance (page_of (displayFundInfo info p)) = optimizeChartInstance p"
  by (cases info) (simp_all add: displayFundInfo_def page_of_def Let_def)

lemma click_toggleFundList_charts:
  "charts (click_toggleFundList p) = charts p
      \<and> optimizeChartInstance (click_toggleFundList p) = optimizeChartInstance p"
proof -
  have f: "click_toggleFundList p = p\<lparr>fundList := fundList (click_toggleFundList p),
                      toggleFundList_text := toggleFundList_text (click_toggleFundList p)\<rparr>"
    unfolding click_toggleFundList_def by (rule run_list_frame)
  have "charts (click_toggleFundList p) = charts (p\<lparr>fundList := fundList (click_toggleFundList p),
                      toggleFundList_text := toggleFundList_text (click_toggleFundList p)\<rparr>)"
    by (rule arg_cong [OF f])
  moreover have "optimizeChartInstance (click_toggleFundList p) = optimizeChartInstance (p\<lparr>fundList := fundList (click_toggleFundList p),
                      toggleFundList_text := toggleFundList_text (click_toggleFundList p)\<rparr>)"
    by (rule arg_cong [OF f])
  ultimately show ?thesis
    by simp
qed

lemma click_toggleFundInfo_charts:
  "charts (click_toggleFundInfo p) = charts p
      \<and> optimizeChartInstance (click_toggleFundInfo p) = optimizeChartInstance p"
proof -
  have f: "click_toggleFundInfo p = p\<lparr>fundInfoContent := fundInfoContent (click_toggleFundInfo p),
                      toggleFundInfo_text := toggleFundInfo_text (click_toggleFundInfo p)\<rparr>"
    unfolding click_toggleFundInfo_def by (rule run_info_frame)
  have "charts (click_toggleFundInfo p) = charts (p\<lparr>fundInfoContent := fundInfoContent (click_toggleFundInfo p),
                      toggleFundInfo_text := toggleFundInfo_text (click_toggleFundInfo p)\<rparr>)"
    by (rule arg_cong [OF f])
  moreover have "optimizeChartInstance (click_toggleFundInfo p) = optimizeChartInstance (p\<lparr>fundInfoContent := fundInfoContent (click_toggleFundInfo p),
                      toggleFundInfo_text := toggleFundInfo_text (click_toggleFundInfo p)\<rparr>)"
    by (rule arg_cong [OF f])
  ultimately show ?thesis
    by simp
qed

lemma chart_inv_catch_log: "chart_inv (catch_log c) = chart_inv (page_of c)"
  by (rule chart_inv_cong) (rule catch_log_charts)

lemma page_of_renderOptimizeChart_fail:
  assumes "\<not> (\<exists>d w. data = Some d \<and> weights d = Some w)"
  shows "page_of (renderOptimizeChart data p) = dispose_current p"
proof (cases data)
  case None
  then show ?thesis
    by (simp add: renderOptimizeChart_def page_of_def dispose_current_def Let_def)
next
  case (Some d)
  with assms have "weights d = None"
    by (cases "weights d") simp_all
  with Some show ?thesis
    by (simp add: renderOptimizeChart_def page_of_def dispose_current_def Let_def)
qed

lemma chart_inv_renderOptimizeChart:
  assumes inv: "chart_inv p"
  shows "chart_inv (page_of (renderOptimizeChart data p))"
proof (cases "\<exists>d w. data = Some d \<and> weights d = Some w")
  case True
  then obtain d w where d: "data = Some d" "weights d = Some w"
    by blast
  from renderOptimizeChart_live [OF inv d(2)] obtain p' where
    "renderOptimizeChart (Some d) p = Normal p'"
    "live_charts ''optimizeChart'' p' = [length (charts p)]"
    "optimizeChartInstance p' = Some (length (charts p))"
    by blast
  then show ?thesis
    by (simp add: d page_of_def chart_inv_single)
next
  case False
  have "chart_inv (dispose_current p)"
    using live_charts_dispose_current [OF inv] by (simp add: chart_inv_def)
  with False show ?thesis
    by (simp add: page_of_renderOptimizeChart_fail)
qed

lemma renderBacktestChart_instance:
  "optimizeChartInstance (page_of (renderBacktestChart data p)) = optimizeChartInstance p"
proof (cases data)
  case None
  then show ?thesis by (simp add: renderBacktestChart_def page_of_def)
next
  case (Some d)
  show ?thesis
  proof (cases "portfolio_value d")
    case None
    with Some show ?thesis by (simp add: renderBacktestChart_def page_of_def)
  next
    case (Some xs)
    with \<open>data = Some d\<close> show ?thesis
      by (simp add: renderBacktestChart_def new_Chart_def page_of_def console_log_def Let_def)
  qed
qed

lemma chart_inv_renderBacktestChart:
  assumes inv: "chart_inv p"
  shows "chart_inv (page_of (renderBacktestChart data p))"
proof -
  let ?q = "page_of (renderBacktestChart data p)"
  note i = renderBacktestChart_instance [of data p]
  from renderBacktestChart_keeps_charts [of data p] show ?thesis
  proof
    assume "charts ?q = charts p"
    with i have "chart_inv ?q = chart_inv p"
      by (intro chart_inv_cong conjI)
    with inv show ?thesis
      by simp
  next
    assume "\<exists>cfg. charts ?q = charts p @ [\<lparr>canvas = ''backtestChart'', config = cfg, destroyed = False\<rparr>]"
    then obtain cfg where c: "charts ?q = charts p @ [\<lparr>canvas = ''backtestChart'', config = cfg, destroyed = False\<rparr>]"
      by blast
    have "live_charts ''optimizeChart'' ?q =
        live_charts ''optimizeChart'' (p\<lparr>charts := charts p @ [\<lparr>canvas = ''backtestChart'', config = cfg, destroyed = False\<rparr>]\<rparr>)"
      by (rule live_charts_charts_only) (simp add: c)
    also have "\<dots> = live_charts ''optimizeChart'' p"
      by (simp add: live_charts_append)
    finally show ?thesis
      using inv i by (simp add: chart_inv_def)
  qed
qed

lemma chart_inv_handle:
  assumes inv: "chart_inv p"
  shows "chart_inv (handle e p)"
proof (cases e)
  case (SubmitFundForm r)
  have "chart_inv (fundForm_submit r p) =
          chart_inv (page_of (await_json r displayFunds (console_log (Log ''Fund form submit event triggered!'') p)))"
    unfolding fundForm_submit_def by (rule chart_inv_catch_log)
  also have "\<dots> = chart_inv p"
    by (rule chart_inv_cong)
      (simp add: page_of_await_json displayFunds_charts console_log_def split: fetched.split body.split)
  finally show ?thesis
    using inv SubmitFundForm by simp
next
  case ClickToggleFundList
  have "chart_inv (click_toggleFundList p) = chart_inv p"
    by (rule chart_inv_cong) (rule click_toggleFundList_charts)
  with inv ClickToggleFundList show ?thesis
    by simp
next
  case (SubmitFundInfoForm r)
  have "chart_inv (fundInfoForm_submit r p) = chart_inv (page_of (await_json r displayFundInfo p))"
    unfolding fundInfoForm_submit_def by (rule chart_inv_catch_log)
  also have "\<dots> = chart_inv p"
    by (rule chart_inv_cong)
      (simp add: page_of_await_json displayFundInfo_charts split: fetched.split body.split)
  finally show ?thesis
    using inv SubmitFundInfoForm by simp
next
  case ClickToggleFundInfo
  have "chart_inv (click_toggleFundInfo p) = chart_inv p"
    by (rule chart_inv_cong) (rule click_toggleFundInfo_charts)
  with inv ClickToggleFundInfo show ?thesis
    by simp
next
  case (SubmitOptimizeForm r)
  define rest where "rest = (\<lambda>result_data q.
      renderOptimizeChart result_data (q\<lparr>optimizeResultContent := Stringify result_data\<rparr>))"
  have step: "chart_inv (page_of (rest d p))" for d
  proof -
    have "chart_inv (p\<lparr>optimizeResultContent := Stringify d\<rparr>) = chart_inv p"
      by (rule chart_inv_cong) simp
    with inv show ?thesis
      unfolding rest_def by (intro chart_inv_renderOptimizeChart) simp
  qed
  have "chart_inv (optimizeForm_submit r p) = chart_inv (page_of (await_json r rest p))"
    unfolding optimizeForm_submit_def rest_def by (rule chart_inv_catch_log)
  also have "\<dots>"
    using inv step by (simp add: page_of_await_json split: fetched.split body.split)
  finally show ?thesis
    using SubmitOptimizeForm by simp
next
  case (SubmitBacktestForm r)
  define p1 where "p1 = p\<lparr>backtestLoading_display := ''block''\<rparr>"
  define rest where "rest = (\<lambda>result_data q.
      renderBacktestChart result_data (q\<lparr>backtestResultContent := Stringify result_data\<rparr>))"
  have "chart_inv p1 = chart_inv p"
    by (rule chart_inv_cong) (simp add: p1_def)
  with inv have inv1: "chart_inv p1"
    by simp
  have step: "chart_inv (page_of (rest d p1))" for d
  proof -
    have "chart_inv (p1\<lparr>backtestResultContent := Stringify d\<rparr>) = chart_inv p1"
      by (rule chart_inv_cong) simp
    with inv1 show ?thesis
      unfolding rest_def by (intro chart_inv_renderBacktestChart) simp
  qed
  have "chart_inv (backtestForm_submit r p) = chart_inv (catch_log (await_json r rest p1))"
    unfolding backtestForm_submit_def rest_def p1_def Let_def by (rule chart_inv_cong) simp
  also have "\<dots> = chart_inv (page_of (await_json r rest p1))"
    by (rule chart_inv_catch_log)
  also have "\<dots>"
    using inv1 step by (simp add: page_of_await_json split: fetched.split body.split)
  finally show ?thesis
    using SubmitBacktestForm by simp
qed

lemma chart_inv_run: "chart_inv p \<Longrightarrow> chart_inv (run es p)"
  unfolding run_def by (induction es arbitrary: p) (simp_all add: chart_inv_handle)

lemma chart_inv_at_most_one:
  assumes "chart_inv p"
  shows "length (live_charts ''optimizeChart'' p) \<le> 1"
proof -
  have d: "distinct (live_charts ''optimizeChart'' p)"
    by (simp add: live_charts_def)
  show ?thesis
  proof (cases "live_charts ''optimizeChart'' p")
    case Nil
    then show ?thesis by simp
  next
    case (Cons i rest)
    with assms have "\<forall>j \<in> set rest. j = i"
      by (auto simp: chart_inv_def)
    with d Cons have "rest = []"
      by (cases rest) auto
    with Cons show ?thesis by simp
  qed
qed

lemma optimize_canvas_at_most_one:
  "length (live_charts ''optimizeChart'' (run es (blank_page check))) \<le> 1"
  by (intro chart_inv_at_most_one chart_inv_run chart_inv_blank)

section \<open>Failures of a request\<close>

text \<open>
  C7, as claimed: every failure of the request (network failure, non-2xx status, body
  that is not JSON) is caught and logged and leaves the rendered content as it was. It
  fails for a non-2xx status. On a page that shows one fund, a response with status 500
  and a JSON body with data replaces the list and logs no error; a response with status
  404 and a JSON body without data empties the list before the error is logged.
\<close>

theorem non_2xx_is_processed:
  "request_failed (Response 500 (JSON (Some [''110022''])))
   \<and> fundList one_fund_page = [''000001'']
   \<and> fundList (fundForm_submit (Response 500 (JSON (Some [''110022'']))) one_fund_page) = [''110022'']
   \<and> fundList (fundForm_submit (Response 500 (JSON (Some [''110022'']))) one_fund_page) \<noteq>
       fundList one_fund_page
   \<and> console (fundForm_submit (Response 500 (JSON (Some [''110022'']))) one_fund_page) =
       [Log ''Fund form submit event triggered!'']
   \<and> request_failed (Response 404 (JSON (None :: jsstring list option)))
   \<and> fundList (fundForm_submit (Response 404 (JSON None)) one_fund_page) = []
   \<and> console (fundForm_submit (Response 404 (JSON None)) one_fund_page) =
       [Log ''Fund form submit event triggered!'', LogError TypeError]"
  by (simp add: request_failed_def one_fund_page_def blank_page_def fundForm_submit_def
      catch_log_def await_json_def console_log_def displayFunds_def append_items_eq
      MAX_FUNDS_TO_SHOW_def)

text \<open>
  C7, amended: every submit handler catches and logs a rejected \<^verbatim>\<open>fetch\<close> and a body that
  is not JSON, whatever the status, and then changes nothing else on the page (the
  backtest handler hides its loading indicator again). The status is never looked at: a
  response with a JSON body is handled as the response with status 200 and that body is.
\<close>

theorem handlers_catch_rejections:
  "fundForm_submit NetworkFailure p =
     console_log (LogError FetchFailed) (console_log (Log ''Fund form submit event triggered!'') p)
   \<and> fundForm_submit (Response status MalformedJSON) p =
       console_log (LogError JsonSyntaxError) (console_log (Log ''Fund form submit event triggered!'') p)
   \<and> fundInfoForm_submit NetworkFailure p = console_log (LogError FetchFailed) p
   \<and> fundInfoForm_submit (Response status MalformedJSON) p = console_log (LogError JsonSyntaxError) p
   \<and> optimizeForm_submit NetworkFailure p = console_log (LogError FetchFailed) p
   \<and> optimizeForm_submit (Response status MalformedJSON) p = console_log (LogError JsonSyntaxError) p
   \<and> backtestForm_submit NetworkFailure p =
       (console_log (LogError FetchFailed) p)\<lparr>backtestLoading_display := ''none''\<rparr>
   \<and> backtestForm_submit (Response status MalformedJSON) p =
       (console_log (LogError JsonSyntaxError) p)\<lparr>backtestLoading_display := ''none''\<rparr>
   \<and> main_optimizeForm_submit NetworkFailure rp =
       rp\<lparr>results_console := results_console rp @ [LogError FetchFailed]\<rparr>
   \<and> main_optimizeForm_submit (Response status MalformedJSON) rp =
       rp\<lparr>results_console := results_console rp @ [LogError JsonSyntaxError]\<rparr>
   \<and> fundForm_submit (Response status (JSON funds)) p = fundForm_submit (Response 200 (JSON funds)) p
   \<and> fundInfoForm_submit (Response status (JSON info)) p = fundInfoForm_submit (Response 200 (JSON info)) p
   \<and> optimizeForm_submit (Response status (JSON od)) p = optimizeForm_submit (Response 200 (JSON od)) p
   \<and> backtestForm_submit (Response status (JSON bd)) p = backtestForm_submit (Response 200 (JSON bd)) p
   \<and> main_optimizeForm_submit (Response status (JSON result)) rp =
       main_optimizeForm_submit (Response 200 (JSON result)) rp"
  by (simp add: fundForm_submit_def fundInfoForm_submit_def optimizeForm_submit_def
      backtestForm_submit_def main_optimizeForm_submit_def catch_log_def await_json_def
      console_log_def)

section \<open>The table of results\<close>

lemma round_half_even_down:
  assumes "of_int n \<le> q" and "q < of_int n + 1 / 2"
  shows "round_half_even q = n"
proof -
  from assms have "\<lfloor>q\<rfloor> = n"
    by (simp add: floor_eq_iff)
  with assms show ?thesis
    by (simp add: round_half_even_def Let_def)
qed

lemma round_half_even_up:
  assumes "of_int n - 1 / 2 < q" and "q < of_int n"
  shows "round_half_even q = n"
proof -
  from assms have "\<lfloor>q\<rfloor> = n - 1"
    by (simp add: floor_eq_iff)
  with assms show ?thesis
    by (simp add: round_half_even_def Let_def)
qed

lemma number_value_normal:
  assumes "0 < x" and "floor_log2 x = e" and "- 1022 \<le> e"
    and "round_half_even (x / 2 powi (e - 52)) = n"
    and "of_int n * 2 powi (e - 52) < (2 :: rat) ^ 1024"
  shows "number_value x = Finite (of_int n * 2 powi (e - 52))"
proof -
  from assms have m: "max (floor_log2 x) (- 1022) = e"
    by simp
  from assms have x: "x \<noteq> 0" "\<bar>x\<bar> = x" "(0 < x) = True"
    by simp_all
  from assms have r: "((2 :: rat) ^ 1024 \<le> of_int n * 2 powi (e - 52)) = False"
    by (simp only: not_le [symmetric] simp_thms)
  show ?thesis
    unfolding number_value_def Let_def
    by (simp only: x m assms(4) r if_False if_True)
qed

lemma floor_log2_small:
  assumes "a < 1" and "of_int k < 1 / a" and "1 / a \<le> of_int k + 1" and "bitlen k = b"
  shows "floor_log2 a = - b"
proof -
  from assms have "\<lceil>1 / a\<rceil> = k + 1"
    by (simp add: ceiling_eq_iff)
  with assms show ?thesis
    by (simp add: floor_log2_def)
qed

lemma floor_log2_large:
  assumes "1 \<le> a" and "of_int k \<le> a" and "a < of_int k + 1" and "bitlen k = b"
  shows "floor_log2 a = b - 1"
proof -
  from assms have "\<lfloor>a\<rfloor> = k"
    by (simp add: floor_eq_iff)
  with assms show ?thesis
    by (simp add: floor_log2_def)
qed

lemma weight_A: "number_value (6 / 10) = Finite (5404319552844595 / 2 ^ 53)"
proof -
  have "floor_log2 (6 / 10) = - 1"
    by (rule floor_log2_small [of _ 1]) (simp_all add: bitlen_def compute_floorlog)
  moreover have "round_half_even ((6 / 10) / 2 powi (- 1 - 52)) = 5404319552844595"
    by (rule round_half_even_down) (simp_all add: power_int_minus)
  ultimately have "number_value (6 / 10) = Finite (of_int 5404319552844595 * 2 powi (- 1 - 52))"
    by (intro number_value_normal) (simp_all add: power_int_minus)
  then show ?thesis
    by (simp add: power_int_minus)
qed

lemma weight_B: "number_value (4 / 10) = Finite (3602879701896397 / 2 ^ 53)"
proof -
  have "floor_log2 (4 / 10) = - 2"
    by (rule floor_log2_small [of _ 2]) (simp_all add: bitlen_def compute_floorlog)
  moreover have "round_half_even ((4 / 10) / 2 powi (- 2 - 52)) = 7205759403792794"
    by (rule round_half_even_up) (simp_all add: power_int_minus)
  ultimately have "number_value (4 / 10) = Finite (of_int 7205759403792794 * 2 powi (- 2 - 52))"
    by (intro number_value_normal) (simp_all add: power_int_minus)
  then show ?thesis
    by (simp add: power_int_minus)
qed

lemma weight_A_times_100: "js_times (number_value (6 / 10)) (Finite 100) = Finite 60"
proof -
  define a :: rat where "a = 5404319552844595 / 2 ^ 53 * 100"
  have "floor_log2 a = 6 - 1"
    by (rule floor_log2_large [of _ 59]) (simp_all add: a_def bitlen_def compute_floorlog)
  moreover have "round_half_even (a / 2 powi (5 - 52)) = 8444249301319680"
    by (rule round_half_even_up) (simp_all add: a_def power_int_minus)
  moreover have "0 < a"
    by (simp add: a_def)
  ultimately have "number_value a = Finite (of_int 8444249301319680 * 2 powi (5 - 52))"
    by (intro number_value_normal) (simp_all add: power_int_minus)
  then have "number_value a = Finite 60"
    by (simp add: power_int_minus)
  then show ?thesis
    by (simp only: weight_A js_times.simps a_def)
qed

lemma weight_B_times_100: "js_times (number_value (4 / 10)) (Finite 100) = Finite 40"
proof -
  define a :: rat where "a = 3602879701896397 / 2 ^ 53 * 100"
  have "floor_log2 a = 6 - 1"
    by (rule floor_log2_large [of _ 40]) (simp_all add: a_def bitlen_def compute_floorlog)
  moreover have "round_half_even (a / 2 powi (5 - 52)) = 5629499534213120"
    by (rule round_half_even_down) (simp_all add: a_def power_int_minus)
  moreover have "0 < a"
    by (simp add: a_def)
  ultimately have "number_value a = Finite (of_int 5629499534213120 * 2 powi (5 - 52))"
    by (intro number_value_normal) (simp_all add: power_int_minus)
  then have "number_value a = Finite 40"
    by (simp add: power_int_minus)
  then show ?thesis
    by (simp only: weight_B js_times.simps a_def)
qed

lemma toFixed_small:
  assumes "0 \<le> r" and "r < 10 ^ 21"
    and "of_nat n \<le> r * 10 ^ f + 1 / 2" and "r * 10 ^ f + 1 / 2 < of_nat n + 1"
    and "digits10 n = m" and "f < length m" and "f \<noteq> 0"
  shows "toFixed f (Finite r) = take (length m - f) m @ ''.'' @ drop (length m - f) m"
proof -
  from assms have "\<lfloor>r * 10 ^ f + 1 / 2\<rfloor> = int n"
    by (simp add: floor_eq_iff)
  then have n: "nat \<lfloor>\<bar>r\<bar> * 10 ^ f + 1 / 2\<rfloor> = n"
    using assms(1) by simp
  from assms have c: "(r < 0) = False" "((10 :: rat) ^ 21 \<le> \<bar>r\<bar>) = False"
    by simp_all
  from assms have l: "(length m \<le> f) = False" "(f \<noteq> 0) = True"
    by simp_all
  show ?thesis
    unfolding toFixed_def Let_def jsnum.case
    by (simp only: n c l assms(5) if_False if_True append_Nil)
qed

lemma toFixed_60: "toFixed 2 (Finite 60) = ''60.00''"
proof -
  have "toFixed 2 (Finite 60) =
      take (length ''6000'' - 2) ''6000'' @ ''.'' @ drop (length ''6000'' - 2) ''6000''"
    by (rule toFixed_small [of _ 6000]) simp_all
  then show ?thesis
    by simp
qed

lemma toFixed_40: "toFixed 2 (Finite 40) = ''40.00''"
proof -
  have "toFixed 2 (Finite 40) =
      take (length ''4000'' - 2) ''4000'' @ ''.'' @ drop (length ''4000'' - 2) ''4000''"
    by (rule toFixed_small [of _ 4000]) simp_all
  then show ?thesis
    by simp
qed

lemma foldl_rows: "foldl (\<lambda>html cw. html @ table_row cw) h entries = h @ concat (map table_row entries)"
  by (induction entries arbitrary: h) simp_all

lemma displayResults_rows:
  assumes "weights result = Some entries"
  shows "displayResults result p =
     Normal (p\<lparr>results_innerHTML :=
        ''<h3>'' @ heading_results @ ''</h3><table class='' @ [CHR 0x22] @ ''table'' @ [CHR 0x22]
        @ ''><tr><th>'' @ key_fund_code @ ''</th><th>'' @ heading_weight @ ''</th></tr>''
        @ concat (map table_row entries) @ ''</table>''\<rparr>)"
  using assms by (simp add: displayResults_def foldl_rows Let_def)

lemma table_row_A: "table_row (''A'', number_value (6 / 10)) = ''<tr><td>A</td><td>60.00%</td></tr>''"
  unfolding table_row_def prod.case weight_A_times_100 toFixed_60 by simp

lemma table_row_B: "table_row (''B'', number_value (4 / 10)) = ''<tr><td>B</td><td>40.00%</td></tr>''"
  unfolding table_row_def prod.case weight_B_times_100 toFixed_40 by simp

text \<open>
  C8. For the weights \<^verbatim>\<open>{A: 0.6, B: 0.4}\<close> (the doubles nearest to 0.6 and 0.4)
  \<^verbatim>\<open>displayResults\<close> writes a table with the heading row and exactly two rows, one per
  fund code in the order of the entries: A with \<^verbatim>\<open>60.00%\<close> and B with \<^verbatim>\<open>40.00%\<close>.
\<close>

theorem displayResults_example:
  "displayResults \<lparr>weights = Some [(''A'', number_value (6 / 10)), (''B'', number_value (4 / 10))]\<rparr> p =
     Normal (p\<lparr>results_innerHTML :=
        ''<h3>'' @ heading_results @ ''</h3><table class='' @ [CHR 0x22] @ ''table'' @ [CHR 0x22]
        @ ''><tr><th>'' @ key_fund_code @ ''</th><th>'' @ heading_weight @ ''</th></tr>''
        @ ''<tr><td>A</td><td>60.00%</td></tr>''
        @ ''<tr><td>B</td><td>40.00%</td></tr>''
        @ ''</table>''\<rparr>)
   \<and> map table_row [(''A'', number_value (6 / 10)), (''B'', number_value (4 / 10))] =
       [''<tr><td>A</td><td>60.00%</td></tr>'', ''<tr><td>B</td><td>40.00%</td></tr>'']"
proof -
  have rows: "map table_row [(''A'', number_value (6 / 10)), (''B'', number_value (4 / 10))] =
       [''<tr><td>A</td><td>60.00%</td></tr>'', ''<tr><td>B</td><td>40.00%</td></tr>'']"
    by (simp only: list.map table_row_A table_row_B)
  have "weights \<lparr>weights = Some [(''A'', number_value (6 / 10)), (''B'', number_value (4 / 10))]\<rparr>
      = Some [(''A'', number_value (6 / 10)), (''B'', number_value (4 / 10))]"
    by simp
  from displayResults_rows [OF this, of p] rows show ?thesis
    by (simp only: rows) simp
qed

end
